theory Spec2Isabelle
  imports Main
begin

section \<open>The two-pass XMLTV loader of \<^verbatim>\<open>backend/epg_parser.py\<close>\<close>

text \<open>
  The development follows the Python source function by function.  Python strings are
  modelled as \<^typ>\<open>string\<close>, read as sequences of code points below 256; Python's
  unbounded integers are \<^typ>\<open>int\<close>.  The SQLite connection shared by all objects,
  together with the module-level logger, is an explicit \<open>world\<close> value that every
  operation takes and returns.  Only \<^verbatim>\<open>logger.error\<close> calls are recorded; the
  informational progress messages (and \<^verbatim>\<open>_report_progress\<close>, which does nothing
  else) have no effect on any value modelled here.
\<close>

subsection \<open>String helpers of the Python runtime\<close>

definition is_space :: "char \<Rightarrow> bool" where
  \<comment> \<open>the code points below 256 that \<^verbatim>\<open>str.strip()\<close> removes\<close>
  "is_space c =
     (let n = (of_char c :: nat)
      in (9 \<le> n \<and> n \<le> 13) \<or> (28 \<le> n \<and> n \<le> 32) \<or> n = 133 \<or> n = 160)"

definition strip :: "string \<Rightarrow> string" where
  "strip s = rev (dropWhile is_space (rev (dropWhile is_space s)))"

definition starts_with :: "string \<Rightarrow> string \<Rightarrow> bool" where
  \<comment> \<open>\<^verbatim>\<open>s.startswith(p)\<close>\<close>
  "starts_with p s = (take (length p) s = p)"

fun contains :: "string \<Rightarrow> string \<Rightarrow> bool" where
  \<comment> \<open>\<^verbatim>\<open>p in s\<close>\<close>
  "contains p [] = (p = [])"
| "contains p (c # cs) = (starts_with p (c # cs) \<or> contains p cs)"

definition last_segment :: "string \<Rightarrow> string" where
  \<comment> \<open>\<^verbatim>\<open>s.split("/")[-1]\<close>\<close>
  "last_segment s = rev (takeWhile (\<lambda>c. c \<noteq> CHR ''/'') (rev s))"

definition attrs_get :: "(string \<times> string) list \<Rightarrow> string \<Rightarrow> string \<Rightarrow> string" where
  \<comment> \<open>\<^verbatim>\<open>attrs.get(key, default)\<close>\<close>
  "attrs_get attrs k d = (case map_of attrs k of Some v \<Rightarrow> v | None \<Rightarrow> d)"

subsection \<open>The store: three tables with cascading foreign keys\<close>

record source_row =
  s_name :: string
  s_url :: "string option"
  s_file_path :: "string option"
  s_channel_count :: int
  s_program_count :: int
  s_last_updated :: string

record channel =
  c_id :: string
  c_source_id :: string
  c_name :: string
  c_icon :: "string option"

record program =
  p_id :: string
  p_channel_id :: string
  p_title :: string
  p_description :: "string option"
  p_start :: string
  p_stop :: string
  p_category :: "string option"

text \<open>Each table is a map from its primary key to the row.\<close>

record store =
  sources :: "string \<rightharpoonup> source_row"
  channels :: "string \<rightharpoonup> channel"
  programs :: "string \<rightharpoonup> program"

datatype sql_error = IntegrityError | OperationalError

type_synonym statement = "store \<Rightarrow> sql_error + store"

definition insert_channel :: "channel \<Rightarrow> statement" where
  \<comment> \<open>\<^verbatim>\<open>INSERT INTO channels (id, source_id, name, icon) VALUES (?, ?, ?, ?)\<close>\<close>
  "insert_channel c s =
     (if c_id c \<in> dom (channels s) then Inl IntegrityError
      else if c_source_id c \<notin> dom (sources s) then Inl IntegrityError
      else Inr (s\<lparr>channels := (channels s)(c_id c \<mapsto> c)\<rparr>))"

definition update_channel :: "channel \<Rightarrow> statement" where
  \<comment> \<open>\<^verbatim>\<open>UPDATE channels SET source_id = ?, name = ?, icon = ? WHERE id = ?\<close>\<close>
  "update_channel c s =
     (if c_id c \<notin> dom (channels s) then Inr s
      else if c_source_id c \<notin> dom (sources s) then Inl IntegrityError
      else Inr (s\<lparr>channels := (channels s)(c_id c \<mapsto> c)\<rparr>))"

definition insert_or_replace_program :: "program \<Rightarrow> statement" where
  \<comment> \<open>\<^verbatim>\<open>INSERT OR REPLACE INTO programs (id, channel_id, title, description, start, stop, category) ...\<close>\<close>
  "insert_or_replace_program p s =
     (if p_channel_id p \<notin> dom (channels s) then Inl IntegrityError
      else Inr (s\<lparr>programs := (programs s)(p_id p \<mapsto> p)\<rparr>))"

definition delete_source :: "string \<Rightarrow> statement" where
  \<comment> \<open>\<^verbatim>\<open>DELETE FROM sources WHERE id = ?\<close> with both \<^verbatim>\<open>ON DELETE CASCADE\<close> keys enforced\<close>
  "delete_source sid s =
     (case sources s sid of
        None \<Rightarrow> Inr s
      | Some _ \<Rightarrow>
          Inr (s\<lparr>sources := (sources s)(sid := None),
                 channels := (\<lambda>k. case channels s k of
                                     None \<Rightarrow> None
                                   | Some c \<Rightarrow> if c_source_id c = sid then None else Some c),
                 programs := (\<lambda>k. case programs s k of
                                     None \<Rightarrow> None
                                   | Some p \<Rightarrow>
                                       (case channels s (p_channel_id p) of
                                          None \<Rightarrow> Some p
                                        | Some c \<Rightarrow> if c_source_id c = sid then None else Some p))\<rparr>))"

definition insert_source :: "string \<Rightarrow> string \<Rightarrow> string \<Rightarrow> string \<Rightarrow> statement" where
  \<comment> \<open>\<^verbatim>\<open>INSERT INTO sources (id, name, url, channel_count, program_count) VALUES (?, ?, ?, 0, 0)\<close>;
      \<open>current_timestamp\<close> is the store's own clock, used by the column default\<close>
  "insert_source current_timestamp sid nm url s =
     (if sid \<in> dom (sources s) then Inl IntegrityError
      else Inr (s\<lparr>sources := (sources s)(sid \<mapsto>
                  \<lparr>s_name = nm, s_url = Some url, s_file_path = None,
                   s_channel_count = 0, s_program_count = 0,
                   s_last_updated = current_timestamp\<rparr>)\<rparr>))"

definition update_source_statistics :: "int \<Rightarrow> int \<Rightarrow> string \<Rightarrow> string \<Rightarrow> statement" where
  \<comment> \<open>\<^verbatim>\<open>UPDATE sources SET channel_count = ?, program_count = ?, last_updated = ? WHERE id = ?\<close>\<close>
  "update_source_statistics cc pc current_time sid s =
     (case sources s sid of
        None \<Rightarrow> Inr s
      | Some r \<Rightarrow>
          Inr (s\<lparr>sources := (sources s)(sid \<mapsto>
                  r\<lparr>s_channel_count := cc, s_program_count := pc,
                    s_last_updated := current_time\<rparr>)\<rparr>))"

subsection \<open>The connection and the logger\<close>

datatype log_entry =
    ChannelBatchError sql_error
  | ProgramBatchError sql_error
  | ProgramIntegrityError string string
  | FirstPassError
  | SecondPassError
  | StatisticsError sql_error

text \<open>
  \<open>store\<close> is what a query on the connection sees; \<open>snapshot\<close> is the committed state
  while a transaction is open.  \<open>faults\<close> is the environment's part: for each data
  statement and each commit still to come, whether the store fails it with an
  \<^verbatim>\<open>OperationalError\<close> (disk, lock); an exhausted list means no further fault.
  \<^verbatim>\<open>BEGIN\<close> and \<^verbatim>\<open>ROLLBACK\<close> take no lock and are not subject to such faults.
\<close>

record world =
  store :: store
  snapshot :: "store option"
  faults :: "bool list"
  errlog :: "log_entry list"

definition next_fault :: "world \<Rightarrow> bool" where
  "next_fault w = (case faults w of [] \<Rightarrow> False | b # _ \<Rightarrow> b)"

definition execute :: "statement \<Rightarrow> world \<Rightarrow> sql_error option \<times> world" where
  \<comment> \<open>\<^verbatim>\<open>cursor.execute\<close> of a data statement; the sqlite3 module opens a transaction
      first when none is open\<close>
  "execute stmt w =
     (let w1 = w\<lparr>snapshot := (case snapshot w of None \<Rightarrow> Some (store w) | Some s \<Rightarrow> Some s),
                faults := tl (faults w)\<rparr>
      in if next_fault w then (Some OperationalError, w1)
         else (case stmt (store w) of
                 Inl e \<Rightarrow> (Some e, w1)
               | Inr s' \<Rightarrow> (None, w1\<lparr>store := s'\<rparr>)))"

definition begin_transaction :: "world \<Rightarrow> sql_error option \<times> world" where
  \<comment> \<open>\<^verbatim>\<open>cursor.execute("BEGIN TRANSACTION")\<close>\<close>
  "begin_transaction w =
     (case snapshot w of
        Some _ \<Rightarrow> (Some OperationalError, w)
      | None \<Rightarrow> (None, w\<lparr>snapshot := Some (store w)\<rparr>))"

definition commit :: "world \<Rightarrow> sql_error option \<times> world" where
  "commit w =
     (if next_fault w then (Some OperationalError, w\<lparr>faults := tl (faults w)\<rparr>)
      else (None, w\<lparr>snapshot := None, faults := tl (faults w)\<rparr>))"

definition rollback :: "world \<Rightarrow> world" where
  "rollback w =
     (case snapshot w of
        None \<Rightarrow> w
      | Some s \<Rightarrow> w\<lparr>store := s, snapshot := None\<rparr>)"

definition logger_error :: "log_entry \<Rightarrow> world \<Rightarrow> world" where
  "logger_error e w = w\<lparr>errlog := errlog w @ [e]\<rparr>"

subsection \<open>SAX events\<close>

datatype sax_event =
    StartElement string "(string \<times> string) list"
  | Characters string
  | EndElement string

text \<open>
  What \<^verbatim>\<open>parser.parse\<close> delivers for one reading of a file: the events up to the end
  of the document, or up to the point where the reader raises (malformed document, IO
  error); a file that cannot be opened delivers no event and raises.
\<close>

datatype xml_stream = XmlStream (events: "sax_event list") (well_formed: bool)

subsection \<open>\<^verbatim>\<open>ChannelHandler\<close>\<close>

record channel_handler =
  ch_db :: world
  ch_source_id :: string
  ch_source_name :: string
  channel_count :: int
  ch_current_element :: "string option"
  in_channel :: bool
  current_channel :: channel
  ch_buffer :: string
  channel_batch :: "channel list"
  ch_channel_ids :: "string set"
  ch_batch_size :: nat

definition empty_channel :: channel where
  "empty_channel = \<lparr>c_id = [], c_source_id = [], c_name = [], c_icon = None\<rparr>"

definition ChannelHandler :: "world \<Rightarrow> string \<Rightarrow> string \<Rightarrow> channel_handler" where
  "ChannelHandler db source_id source_name =
     \<lparr>ch_db = db, ch_source_id = source_id, ch_source_name = source_name,
      channel_count = 0, ch_current_element = None, in_channel = False,
      current_channel = empty_channel, ch_buffer = [], channel_batch = [],
      ch_channel_ids = {}, ch_batch_size = 1000\<rparr>"

fun write_channels :: "channel list \<Rightarrow> world \<Rightarrow> sql_error option \<times> world" where
  \<comment> \<open>the \<^verbatim>\<open>for channel in self.channel_batch\<close> loop\<close>
  "write_channels [] w = (None, w)"
| "write_channels (c # cs) w =
     (case execute (insert_channel c) w of
        (None, w1) \<Rightarrow> write_channels cs w1
      | (Some IntegrityError, w1) \<Rightarrow>
          (case execute (update_channel c) w1 of
             (None, w2) \<Rightarrow> write_channels cs w2
           | (Some e, w2) \<Rightarrow> (Some e, w2))
      | (Some OperationalError, w1) \<Rightarrow> (Some OperationalError, w1))"

definition channel_transaction :: "channel list \<Rightarrow> world \<Rightarrow> sql_error option \<times> world" where
  \<comment> \<open>the \<^verbatim>\<open>try\<close> block of \<^verbatim>\<open>_process_channel_batch\<close>: begin, the loop, commit;
      \<open>Some e\<close> when \<open>e\<close> is raised\<close>
  "channel_transaction batch w =
     (case begin_transaction w of
        (Some e, w0) \<Rightarrow> (Some e, w0)
      | (None, w0) \<Rightarrow>
          (case write_channels batch w0 of
             (Some e, w1) \<Rightarrow> (Some e, w1)
           | (None, w1) \<Rightarrow> commit w1))"

definition process_channel_batch :: "channel_handler \<Rightarrow> channel_handler" where
  "process_channel_batch h =
     (if channel_batch h = [] then h
      else (case channel_transaction (channel_batch h) (ch_db h) of
              (None, w) \<Rightarrow> h\<lparr>ch_db := w, channel_batch := []\<rparr>
            | (Some e, w) \<Rightarrow>
                h\<lparr>ch_db := rollback (logger_error (ChannelBatchError e) w),
                  channel_batch := []\<rparr>))"

definition ch_startElement :: "string \<Rightarrow> (string \<times> string) list \<Rightarrow> channel_handler \<Rightarrow> channel_handler" where
  "ch_startElement name attrs h =
     (let h1 = h\<lparr>ch_current_element := Some name, ch_buffer := []\<rparr>
      in if name = ''channel''
         then h1\<lparr>in_channel := True,
                 current_channel := \<lparr>c_id = attrs_get attrs ''id'' [],
                                     c_source_id = ch_source_id h,
                                     c_name = [], c_icon = None\<rparr>\<rparr>
         else h1)"

definition ch_characters :: "string \<Rightarrow> channel_handler \<Rightarrow> channel_handler" where
  "ch_characters content h = h\<lparr>ch_buffer := ch_buffer h @ content\<rparr>"

definition ch_endElement :: "string \<Rightarrow> channel_handler \<Rightarrow> channel_handler" where
  "ch_endElement name h =
     (if in_channel h then
        (if name = ''display-name''
         then h\<lparr>current_channel := (current_channel h)\<lparr>c_name := strip (ch_buffer h)\<rparr>\<rparr>
         else if name = ''icon''
         then (if (c_icon (current_channel h) = None \<or> c_icon (current_channel h) = Some [])
                  \<and> contains ''@src'' (ch_buffer h)
               then h\<lparr>current_channel := (current_channel h)\<lparr>c_icon := Some (strip (ch_buffer h))\<rparr>\<rparr>
               else h)
         else if name = ''channel''
         then (let h1 = h\<lparr>in_channel := False\<rparr>
               in if c_id (current_channel h1) \<noteq> []
                  then (let h2 = h1\<lparr>channel_batch := channel_batch h1 @ [current_channel h1],
                                     ch_channel_ids := insert (c_id (current_channel h1)) (ch_channel_ids h1),
                                     channel_count := channel_count h1 + 1\<rparr>
                        in if length (channel_batch h2) \<ge> ch_batch_size h2
                           then process_channel_batch h2
                           else h2)
                  else h1)
         else h)
      else h)"

definition ch_endDocument :: "channel_handler \<Rightarrow> channel_handler" where
  "ch_endDocument h = (if channel_batch h \<noteq> [] then process_channel_batch h else h)"

fun ch_event :: "sax_event \<Rightarrow> channel_handler \<Rightarrow> channel_handler" where
  "ch_event (StartElement name attrs) h = ch_startElement name attrs h"
| "ch_event (Characters content) h = ch_characters content h"
| "ch_event (EndElement name) h = ch_endElement name h"

subsection \<open>\<^verbatim>\<open>ProgramHandler\<close>\<close>

record program_handler =
  ph_db :: world
  ph_source_id :: string
  ph_source_name :: string
  ph_channel_ids :: "string set"
  program_count :: int
  skipped_programs :: int
  ph_current_element :: "string option"
  in_programme :: bool
  current_program :: program
  ph_buffer :: string
  program_batch :: "program list"
  ph_batch_size :: nat

definition empty_program :: program where
  "empty_program = \<lparr>p_id = [], p_channel_id = [], p_title = [], p_description = None,
                    p_start = [], p_stop = [], p_category = None\<rparr>"

definition ProgramHandler :: "world \<Rightarrow> string \<Rightarrow> string \<Rightarrow> string set \<Rightarrow> program_handler" where
  "ProgramHandler db source_id source_name channel_ids =
     \<lparr>ph_db = db, ph_source_id = source_id, ph_source_name = source_name,
      ph_channel_ids = channel_ids, program_count = 0, skipped_programs = 0,
      ph_current_element = None, in_programme = False, current_program = empty_program,
      ph_buffer = [], program_batch = [], ph_batch_size = 1000\<rparr>"

fun write_programs :: "program list \<Rightarrow> world \<Rightarrow> sql_error option \<times> world" where
  \<comment> \<open>the \<^verbatim>\<open>for program in self.program_batch\<close> loop\<close>
  "write_programs [] w = (None, w)"
| "write_programs (p # ps) w =
     (case execute (insert_or_replace_program p) w of
        (None, w1) \<Rightarrow> write_programs ps w1
      | (Some IntegrityError, w1) \<Rightarrow>
          write_programs ps (logger_error (ProgramIntegrityError (p_id p) (p_channel_id p)) w1)
      | (Some OperationalError, w1) \<Rightarrow> (Some OperationalError, w1))"

definition program_transaction :: "program list \<Rightarrow> world \<Rightarrow> sql_error option \<times> world" where
  \<comment> \<open>the \<^verbatim>\<open>try\<close> block of \<^verbatim>\<open>_process_program_batch\<close>\<close>
  "program_transaction batch w =
     (case begin_transaction w of
        (Some e, w0) \<Rightarrow> (Some e, w0)
      | (None, w0) \<Rightarrow>
          (case write_programs batch w0 of
             (Some e, w1) \<Rightarrow> (Some e, w1)
           | (None, w1) \<Rightarrow> commit w1))"

definition process_program_batch :: "program_handler \<Rightarrow> program_handler" where
  "process_program_batch h =
     (if program_batch h = [] then h
      else (case program_transaction (program_batch h) (ph_db h) of
              (None, w) \<Rightarrow> h\<lparr>ph_db := w, program_batch := []\<rparr>
            | (Some e, w) \<Rightarrow>
                h\<lparr>ph_db := rollback (logger_error (ProgramBatchError e) w),
                  program_batch := []\<rparr>))"

definition ph_startElement :: "string \<Rightarrow> (string \<times> string) list \<Rightarrow> program_handler \<Rightarrow> program_handler" where
  "ph_startElement name attrs h =
     (let h1 = h\<lparr>ph_current_element := Some name, ph_buffer := []\<rparr>
      in if name = ''programme''
         then (let channel_id = attrs_get attrs ''channel'' []
               in if channel_id \<notin> ph_channel_ids h1
                  then h1\<lparr>in_programme := False, skipped_programs := skipped_programs h1 + 1\<rparr>
                  else h1\<lparr>in_programme := True,
                          current_program :=
                            \<lparr>p_id = channel_id @ ''_'' @ attrs_get attrs ''start'' []
                                       @ ''_'' @ attrs_get attrs ''stop'' [],
                             p_channel_id = channel_id,
                             p_title = [],
                             p_description = None,
                             p_start = attrs_get attrs ''start'' [],
                             p_stop = attrs_get attrs ''stop'' [],
                             p_category = None\<rparr>\<rparr>)
         else h1)"

definition ph_characters :: "string \<Rightarrow> program_handler \<Rightarrow> program_handler" where
  "ph_characters content h = h\<lparr>ph_buffer := ph_buffer h @ content\<rparr>"

definition ph_endElement :: "string \<Rightarrow> program_handler \<Rightarrow> program_handler" where
  "ph_endElement name h =
     (if in_programme h then
        (if name = ''title''
         then h\<lparr>current_program := (current_program h)\<lparr>p_title := strip (ph_buffer h)\<rparr>\<rparr>
         else if name = ''desc''
         then h\<lparr>current_program := (current_program h)\<lparr>p_description := Some (strip (ph_buffer h))\<rparr>\<rparr>
         else if name = ''category''
         then h\<lparr>current_program := (current_program h)\<lparr>p_category := Some (strip (ph_buffer h))\<rparr>\<rparr>
         else if name = ''programme''
         then (let h1 = h\<lparr>in_programme := False\<rparr>
               in if p_title (current_program h1) \<noteq> []
                  then (let h2 = h1\<lparr>program_batch := program_batch h1 @ [current_program h1],
                                     program_count := program_count h1 + 1\<rparr>
                        in if length (program_batch h2) \<ge> ph_batch_size h2
                           then process_program_batch h2
                           else h2)
                  else h1)
         else h)
      else h)"

definition ph_endDocument :: "program_handler \<Rightarrow> program_handler" where
  "ph_endDocument h = (if program_batch h \<noteq> [] then process_program_batch h else h)"

fun ph_event :: "sax_event \<Rightarrow> program_handler \<Rightarrow> program_handler" where
  "ph_event (StartElement name attrs) h = ph_startElement name attrs h"
| "ph_event (Characters content) h = ph_characters content h"
| "ph_event (EndElement name) h = ph_endElement name h"

subsection \<open>\<^verbatim>\<open>TwoPassEPGParser\<close>\<close>

record two_pass_parser =
  tp_file :: xml_stream
  tp_db :: world
  tp_source_id :: string
  tp_source_name :: string
  tp_channel_count :: int
  tp_program_count :: int
  tp_skipped_programs :: int
  tp_channel_ids :: "string set"

definition TwoPassEPGParser :: "xml_stream \<Rightarrow> world \<Rightarrow> string \<Rightarrow> string \<Rightarrow> two_pass_parser" where
  \<comment> \<open>\<open>file\<close> is what reading \<^verbatim>\<open>file_path\<close> delivers (through gzip when the name ends in .gz)\<close>
  "TwoPassEPGParser file db source_id source_name =
     \<lparr>tp_file = file, tp_db = db, tp_source_id = source_id, tp_source_name = source_name,
      tp_channel_count = 0, tp_program_count = 0, tp_skipped_programs = 0,
      tp_channel_ids = {}\<rparr>"

definition first_pass :: "two_pass_parser \<Rightarrow> bool \<times> two_pass_parser" where
  "first_pass p =
     (let h = fold ch_event (events (tp_file p))
                (ChannelHandler (tp_db p) (tp_source_id p) (tp_source_name p))
      in if well_formed (tp_file p)
         then (let h' = ch_endDocument h
               in (True, p\<lparr>tp_db := ch_db h',
                           tp_channel_count := channel_count h',
                           tp_channel_ids := ch_channel_ids h'\<rparr>))
         else (False, p\<lparr>tp_db := logger_error FirstPassError (ch_db h)\<rparr>))"

definition second_pass :: "two_pass_parser \<Rightarrow> bool \<times> two_pass_parser" where
  "second_pass p =
     (let h = fold ph_event (events (tp_file p))
                (ProgramHandler (tp_db p) (tp_source_id p) (tp_source_name p) (tp_channel_ids p))
      in if well_formed (tp_file p)
         then (let h' = ph_endDocument h
               in (True, p\<lparr>tp_db := ph_db h',
                           tp_program_count := program_count h',
                           tp_skipped_programs := skipped_programs h'\<rparr>))
         else (False, p\<lparr>tp_db := logger_error SecondPassError (ph_db h)\<rparr>))"

definition update_statistics :: "string \<Rightarrow> two_pass_parser \<Rightarrow> two_pass_parser" where
  \<comment> \<open>the \<^verbatim>\<open>try\<close> block of \<^verbatim>\<open>parse\<close>; \<open>current_time\<close> is \<^verbatim>\<open>datetime.now().isoformat()\<close>\<close>
  "update_statistics current_time p =
     (case execute (update_source_statistics (tp_channel_count p) (tp_program_count p)
                      current_time (tp_source_id p)) (tp_db p) of
        (Some e, w1) \<Rightarrow> p\<lparr>tp_db := rollback (logger_error (StatisticsError e) w1)\<rparr>
      | (None, w1) \<Rightarrow>
          (case commit w1 of
             (Some e, w2) \<Rightarrow> p\<lparr>tp_db := rollback (logger_error (StatisticsError e) w2)\<rparr>
           | (None, w2) \<Rightarrow> p\<lparr>tp_db := w2\<rparr>))"

definition parse :: "string \<Rightarrow> two_pass_parser \<Rightarrow> bool \<times> two_pass_parser" where
  \<comment> \<open>the results of \<^verbatim>\<open>_first_pass\<close> and \<^verbatim>\<open>_second_pass\<close> are not looked at\<close>
  "parse current_time p =
     (let p1 = snd (first_pass p);
          p2 = snd (second_pass p1)
      in (True, update_statistics current_time p2))"

subsection \<open>\<^verbatim>\<open>parse_epg_file\<close> and \<^verbatim>\<open>process_source\<close>\<close>

text \<open>
  The collaborators of \<^verbatim>\<open>process_source\<close>: the MD5 digest, the download cache, the
  file system and the two clocks.
\<close>

record environment =
  md5_hexdigest :: "string \<Rightarrow> string"
  download_file :: "string \<Rightarrow> string option"
  read_file :: "string \<Rightarrow> xml_stream"
  datetime_now :: string
  current_timestamp :: string

definition parse_epg_file :: "environment \<Rightarrow> string \<Rightarrow> world \<Rightarrow> string \<Rightarrow> string \<Rightarrow> bool \<times> two_pass_parser" where
  \<comment> \<open>no operation of \<open>parse\<close> raises here, so the \<^verbatim>\<open>except\<close> branch has no counterpart\<close>
  "parse_epg_file env file_path db source_id source_name =
     parse (datetime_now env) (TwoPassEPGParser (read_file env file_path) db source_id source_name)"

definition process_source :: "environment \<Rightarrow> string \<Rightarrow> world \<Rightarrow> (sql_error + bool) \<times> world" where
  \<comment> \<open>\<open>Inl\<close>: the exception leaves \<^verbatim>\<open>process_source\<close>\<close>
  "process_source env source_url w =
     (let source_id = md5_hexdigest env source_url;
          source_name = last_segment source_url
      in case execute (delete_source source_id) w of
           (Some e, w1) \<Rightarrow> (Inl e, w1)
         | (None, w1) \<Rightarrow>
        (case commit w1 of
           (Some e, w2) \<Rightarrow> (Inl e, w2)
         | (None, w2) \<Rightarrow>
        (case (if starts_with ''http'' source_url then download_file env source_url
               else Some source_url) of
           None \<Rightarrow> (Inr False, w2)
         | Some local_path \<Rightarrow>
        (case execute (insert_source (current_timestamp env) source_id source_name source_url) w2 of
           (Some e, w3) \<Rightarrow> (Inl e, w3)
         | (None, w3) \<Rightarrow>
        (case commit w3 of
           (Some e, w4) \<Rightarrow> (Inl e, w4)
         | (None, w4) \<Rightarrow>
        (let (success, p) = parse_epg_file env local_path w4 source_id source_name
         in (Inr success, tp_db p)))))))"

subsection \<open>Notions used to state the properties\<close>

text \<open>Events that open or close a \<^verbatim>\<open>programme\<close> element.\<close>

fun is_programme_tag :: "sax_event \<Rightarrow> bool" where
  "is_programme_tag (StartElement n _) = (n = ''programme'')"
| "is_programme_tag (Characters _) = False"
| "is_programme_tag (EndElement n) = (n = ''programme'')"

definition empty_store :: store where
  "empty_store = \<lparr>sources = Map.empty, channels = Map.empty, programs = Map.empty\<rparr>"

text \<open>A connection with no open transaction, no pending fault and an empty error log.\<close>

definition idle_world :: "store \<Rightarrow> world" where
  "idle_world s = \<lparr>store = s, snapshot = None, faults = [], errlog = []\<rparr>"

text \<open>A small store and rows used in the examples.\<close>

definition demo_source :: source_row where
  "demo_source = \<lparr>s_name = ''guide.xml'', s_url = Some ''guide.xml'', s_file_path = None,
                   s_channel_count = 0, s_program_count = 0, s_last_updated = ''2024-01-01 00:00:00''\<rparr>"

definition demo_channel :: "string \<Rightarrow> string \<Rightarrow> channel" where
  "demo_channel i nm = \<lparr>c_id = i, c_source_id = ''src'', c_name = nm, c_icon = None\<rparr>"

definition demo_program :: "string \<Rightarrow> string \<Rightarrow> program" where
  "demo_program ch t = \<lparr>p_id = ch @ ''_1_2'', p_channel_id = ch, p_title = t, p_description = None,
                         p_start = ''1'', p_stop = ''2'', p_category = None\<rparr>"

definition demo_store :: store where
  "demo_store = \<lparr>sources = [''src'' \<mapsto> demo_source],
                 channels = [''c1'' \<mapsto> demo_channel ''c1'' ''One''],
                 programs = Map.empty\<rparr>"

text \<open>A feed with one channel and one programme on it.\<close>

definition demo_feed :: "sax_event list" where
  "demo_feed =
     [StartElement ''tv'' [],
      StartElement ''channel'' [(''id'', ''c1'')],
      StartElement ''display-name'' [], Characters ''One'', EndElement ''display-name'',
      EndElement ''channel'',
      StartElement ''programme'' [(''channel'', ''c1''), (''start'', ''1''), (''stop'', ''2'')],
      StartElement ''title'' [], Characters ''News'', EndElement ''title'',
      EndElement ''programme'',
      EndElement ''tv'']"

text \<open>
  The effect of the two statements at the start of \<^verbatim>\<open>process_source\<close>, the path the
  file is read from, and an environment for the examples.
\<close>

definition without_source :: "string \<Rightarrow> store \<Rightarrow> store" where
  "without_source sid s = (case delete_source sid s of Inr s' \<Rightarrow> s' | Inl _ \<Rightarrow> s)"

definition with_new_source :: "environment \<Rightarrow> string \<Rightarrow> store \<Rightarrow> store" where
  "with_new_source env source_url s =
     (case insert_source (current_timestamp env) (md5_hexdigest env source_url)
             (last_segment source_url) source_url s of
        Inr s' \<Rightarrow> s' | Inl _ \<Rightarrow> s)"

definition local_path_of :: "environment \<Rightarrow> string \<Rightarrow> string option" where
  "local_path_of env source_url =
     (if starts_with ''http'' source_url then download_file env source_url else Some source_url)"

definition demo_environment :: "xml_stream \<Rightarrow> environment" where
  "demo_environment f =
     \<lparr>md5_hexdigest = (\<lambda>u. ''md5-'' @ u), download_file = (\<lambda>u. Some (''cache/'' @ u)),
      read_file = (\<lambda>p. f), datetime_now = ''2024-05-01T10:00:00'',
      current_timestamp = ''2024-05-01 08:00:00''\<rparr>"

text \<open>
  Referential integrity of a store (what SQLite maintains with \<^verbatim>\<open>foreign_keys = ON\<close>),
  and the rows that belong to a source: its channels, and the programs on its channels.
\<close>

definition referential_integrity :: "store \<Rightarrow> bool" where
  "referential_integrity s =
     ((\<forall>k c. channels s k = Some c \<longrightarrow> c_source_id c \<in> dom (sources s))
      \<and> (\<forall>k p. programs s k = Some p \<longrightarrow> p_channel_id p \<in> dom (channels s)))"

definition channels_of :: "string \<Rightarrow> store \<Rightarrow> string set" where
  "channels_of sid s = {k. \<exists>c. channels s k = Some c \<and> c_source_id c = sid}"

definition programs_of :: "string \<Rightarrow> store \<Rightarrow> string set" where
  "programs_of sid s =
     {k. \<exists>p c. programs s k = Some p \<and> channels s (p_channel_id p) = Some c \<and> c_source_id c = sid}"

definition two_source_store :: store where
  "two_source_store =
     \<lparr>sources = [''src'' \<mapsto> demo_source, ''other'' \<mapsto> demo_source],
      channels = [''c1'' \<mapsto> demo_channel ''c1'' ''One'',
                  ''c7'' \<mapsto> (demo_channel ''c7'' ''Seven'')\<lparr>c_source_id := ''other''\<rparr>],
      programs = [''c1_1_2'' \<mapsto> demo_program ''c1'' ''News'',
                  ''c7_1_2'' \<mapsto> demo_program ''c7'' ''Film'']\<rparr>"

text \<open>
  Relations between two runs of the loader that execute the same statements on two
  stores related by \<open>R\<close>: each statement fails in both or succeeds in both, and keeps
  the stores related.  With \<open>R\<close> the diagonal of a predicate this is an invariant of one
  run.  \<open>idle_sim\<close> relates two connections between transactions, with no fault pending.
\<close>

definition statement_sim :: "(store \<Rightarrow> store \<Rightarrow> bool) \<Rightarrow> statement \<Rightarrow> statement \<Rightarrow> bool" where
  "statement_sim R f g =
     (\<forall>s t. R s t \<longrightarrow>
        (case f s of
           Inl e \<Rightarrow> g t = Inl e
         | Inr s' \<Rightarrow> (case g t of Inl _ \<Rightarrow> False | Inr t' \<Rightarrow> R s' t')))"

definition world_sim :: "(store \<Rightarrow> store \<Rightarrow> bool) \<Rightarrow> world \<Rightarrow> world \<Rightarrow> bool" where
  "world_sim R w v =
     (faults w = faults v \<and> R (store w) (store v)
      \<and> (case snapshot w of
            None \<Rightarrow> snapshot v = None
          | Some s \<Rightarrow> (case snapshot v of None \<Rightarrow> False | Some t \<Rightarrow> R s t)))"

definition idle_sim :: "(store \<Rightarrow> store \<Rightarrow> bool) \<Rightarrow> world \<Rightarrow> world \<Rightarrow> bool" where
  "idle_sim R w v =
     (faults w = [] \<and> faults v = [] \<and> snapshot w = None \<and> snapshot v = None
      \<and> R (store w) (store v))"

definition channel_ok :: "string \<Rightarrow> string set \<Rightarrow> channel \<Rightarrow> bool" where
  "channel_ok sid A c = (c_source_id c = sid \<and> c_id c \<in> A)"

definition channel_writes_sim :: "(store \<Rightarrow> store \<Rightarrow> bool) \<Rightarrow> string \<Rightarrow> string set \<Rightarrow> bool" where
  "channel_writes_sim R sid A =
     (\<forall>c. channel_ok sid A c \<longrightarrow>
        statement_sim R (insert_channel c) (insert_channel c)
        \<and> statement_sim R (update_channel c) (update_channel c))"

definition program_writes_sim :: "(store \<Rightarrow> store \<Rightarrow> bool) \<Rightarrow> bool" where
  "program_writes_sim R =
     (\<forall>p. statement_sim R (insert_or_replace_program p) (insert_or_replace_program p))"

definition flush_channels :: "channel list \<Rightarrow> world \<Rightarrow> world" where
  "flush_channels batch w =
     (case channel_transaction batch w of
        (None, w') \<Rightarrow> w'
      | (Some e, w') \<Rightarrow> rollback (logger_error (ChannelBatchError e) w'))"

definition flush_programs :: "program list \<Rightarrow> world \<Rightarrow> world" where
  "flush_programs batch w =
     (case program_transaction batch w of
        (None, w') \<Rightarrow> w'
      | (Some e, w') \<Rightarrow> rollback (logger_error (ProgramBatchError e) w'))"

definition ch_inv :: "string \<Rightarrow> string set \<Rightarrow> channel_handler \<Rightarrow> bool" where
  "ch_inv sid A h =
     (ch_source_id h = sid
      \<and> (\<forall>c\<in>set (channel_batch h). channel_ok sid A c)
      \<and> (in_channel h \<longrightarrow> channel_ok sid A (current_channel h)))"

fun opens_within :: "string set \<Rightarrow> sax_event \<Rightarrow> bool" where
  "opens_within A (StartElement n a) = (n = ''channel'' \<longrightarrow> attrs_get a ''id'' [] \<in> A)"
| "opens_within A (Characters _) = True"
| "opens_within A (EndElement _) = True"

definition ch_rel ::
  "(store \<Rightarrow> store \<Rightarrow> bool) \<Rightarrow> string \<Rightarrow> string set \<Rightarrow> channel_handler \<Rightarrow> channel_handler \<Rightarrow> bool" where
  "ch_rel R sid A h g =
     (g = h\<lparr>ch_db := ch_db g\<rparr> \<and> idle_sim R (ch_db h) (ch_db g) \<and> ch_inv sid A h)"

definition ph_rel ::
  "(store \<Rightarrow> store \<Rightarrow> bool) \<Rightarrow> program_handler \<Rightarrow> program_handler \<Rightarrow> bool" where
  "ph_rel R h g = (g = h\<lparr>ph_db := ph_db g\<rparr> \<and> idle_sim R (ph_db h) (ph_db g))"

definition tp_rel ::
  "(store \<Rightarrow> store \<Rightarrow> bool) \<Rightarrow> two_pass_parser \<Rightarrow> two_pass_parser \<Rightarrow> bool" where
  "tp_rel R p q = (q = p\<lparr>tp_db := tp_db q\<rparr> \<and> idle_sim R (tp_db p) (tp_db q))"

definition statistics_sim :: "(store \<Rightarrow> store \<Rightarrow> bool) \<Rightarrow> string \<Rightarrow> string \<Rightarrow> string \<Rightarrow> bool" where
  "statistics_sim R sid t1 t2 =
     (\<forall>cc pc. statement_sim R (update_source_statistics cc pc t1 sid)
                              (update_source_statistics cc pc t2 sid))"

text \<open>The same feed with one more programme, on a channel the feed does not declare.\<close>

definition demo_feed_unknown :: "sax_event list" where
  "demo_feed_unknown =
     butlast demo_feed @
     [StartElement ''programme'' [(''channel'', ''c9''), (''start'', ''1''), (''stop'', ''2'')],
      StartElement ''title'' [], Characters ''Lost'', EndElement ''title'',
      EndElement ''programme'',
      EndElement ''tv'']"

text \<open>
  What the channel table will hold once the pending batch is flushed, and the state of a
  channel handler whose flushes cannot fail: no fault pending, no transaction open, the
  source row present, and every pending record owned by that source.
\<close>

definition upsert_all :: "channel list \<Rightarrow> (string \<rightharpoonup> channel) \<Rightarrow> (string \<rightharpoonup> channel)" where
  "upsert_all cs m = fold (\<lambda>c m. m(c_id c \<mapsto> c)) cs m"

definition channel_view :: "channel_handler \<Rightarrow> (string \<rightharpoonup> channel)" where
  "channel_view h = upsert_all (channel_batch h) (channels (store (ch_db h)))"

definition ch_ready :: "string \<Rightarrow> channel_handler \<Rightarrow> bool" where
  "ch_ready sid h =
     (faults (ch_db h) = [] \<and> snapshot (ch_db h) = None
      \<and> sid \<in> dom (sources (store (ch_db h))) \<and> ch_inv sid UNIV h)"

fun opens_channel :: "string \<Rightarrow> sax_event \<Rightarrow> bool" where
  "opens_channel i (StartElement n a) = (n = ''channel'' \<and> attrs_get a ''id'' [] = i)"
| "opens_channel i (Characters _) = False"
| "opens_channel i (EndElement _) = False"

fun is_channel_open :: "sax_event \<Rightarrow> bool" where
  "is_channel_open (StartElement n a) = (n = ''channel'')"
| "is_channel_open (Characters _) = False"
| "is_channel_open (EndElement _) = False"

text \<open>A feed that declares the channel \<^verbatim>\<open>c1\<close> twice, up to the second closing tag.\<close>

definition two_block_prefix :: "sax_event list" where
  "two_block_prefix =
     [StartElement ''tv'' [],
      StartElement ''channel'' [(''id'', ''c1'')],
      StartElement ''display-name'' [], Characters ''Old name'', EndElement ''display-name'',
      EndElement ''channel'',
      StartElement ''channel'' [(''id'', ''c1'')],
      StartElement ''display-name'' [], Characters ''New name'', EndElement ''display-name'']"

text \<open>
  The channel ids a feed declares; a store in which none of them belongs to another
  source; what one run may change in the source and channel tables; and the relation
  between the first run (from store \<open>x\<close>) and the second run (from store \<open>y\<close>) of the
  same feed.
\<close>

fun declared_ids :: "sax_event list \<Rightarrow> string set" where
  "declared_ids [] = {}"
| "declared_ids (StartElement n a # es) =
     (if n = ''channel'' then insert (attrs_get a ''id'' []) (declared_ids es) else declared_ids es)"
| "declared_ids (Characters _ # es) = declared_ids es"
| "declared_ids (EndElement _ # es) = declared_ids es"

definition no_foreign_owner :: "string \<Rightarrow> string set \<Rightarrow> store \<Rightarrow> bool" where
  "no_foreign_owner sid A s = (\<forall>k\<in>A. \<forall>c. channels s k = Some c \<longrightarrow> c_source_id c = sid)"

definition touched_only ::
  "string \<Rightarrow> string set \<Rightarrow> store \<Rightarrow> store \<Rightarrow> bool" where
  "touched_only sid A x s =
     (dom (sources s) = dom (sources x)
      \<and> (\<forall>k. channels s k = channels x k
               \<or> (k \<in> A \<and> (\<exists>c. channels s k = Some c \<and> c_source_id c = sid))))"

definition rerun_rel :: "store \<Rightarrow> store \<Rightarrow> store \<Rightarrow> store \<Rightarrow> bool" where
  "rerun_rel x y s t =
     (dom (sources s) = dom (sources t) \<and> channels s = channels t
      \<and> (\<forall>k. programs s k = programs t k
               \<or> (programs s k = programs x k \<and> programs t k = programs y k)))"

text \<open>
  A store in which another source owns channel \<^verbatim>\<open>c1\<close> and a program on it, and the
  store after \<^verbatim>\<open>guide.xml\<close> has been processed on it once.
\<close>

definition shared_store :: store where
  "shared_store =
     \<lparr>sources = [''other'' \<mapsto> demo_source],
      channels = [''c1'' \<mapsto> \<lparr>c_id = ''c1'', c_source_id = ''other'', c_name = ''One'', c_icon = None\<rparr>],
      programs = [''c1_8_9'' \<mapsto> \<lparr>p_id = ''c1_8_9'', p_channel_id = ''c1'', p_title = ''Earlier'',
                                  p_description = None, p_start = ''8'', p_stop = ''9'',
                                  p_category = None\<rparr>]\<rparr>"

definition shared_store_after :: store where
  "shared_store_after =
     \<lparr>sources = [''other'' \<mapsto> demo_source,
                  ''md5-guide.xml'' \<mapsto> \<lparr>s_name = ''guide.xml'', s_url = Some ''guide.xml'',
                      s_file_path = None, s_channel_count = 1, s_program_count = 1,
                      s_last_updated = ''2024-05-01T10:00:00''\<rparr>],
      channels = [''c1'' \<mapsto> \<lparr>c_id = ''c1'', c_source_id = ''md5-guide.xml'', c_name = ''One'',
                                 c_icon = None\<rparr>],
      programs = [''c1_8_9'' \<mapsto> \<lparr>p_id = ''c1_8_9'', p_channel_id = ''c1'', p_title = ''Earlier'',
                                  p_description = None, p_start = ''8'', p_stop = ''9'',
                                  p_category = None\<rparr>,
                  ''c1_1_2'' \<mapsto> \<lparr>p_id = ''c1_1_2'', p_channel_id = ''c1'', p_title = ''News'',
                                  p_description = None, p_start = ''1'', p_stop = ''2'',
                                  p_category = None\<rparr>]\<rparr>"

section \<open>Properties of the program pass\<close>

subsection \<open>Events between the tags of one programme element\<close>

lemma ph_event_outside:
  assumes "\<not> in_programme h" "\<not> is_programme_tag e"
  shows "\<not> in_programme (ph_event e h) \<and> program_batch (ph_event e h) = program_batch h
     \<and> program_count (ph_event e h) = program_count h \<and> skipped_programs (ph_event e h) = skipped_programs h
     \<and> ph_db (ph_event e h) = ph_db h \<and> ph_channel_ids (ph_event e h) = ph_channel_ids h"
  using assms by (cases e) (simp_all add: ph_startElement_def ph_characters_def ph_endElement_def)

lemma ph_fold_outside:
  assumes "\<not> in_programme h" "\<forall>e\<in>set body. \<not> is_programme_tag e"
  shows "\<not> in_programme (fold ph_event body h) \<and> program_batch (fold ph_event body h) = program_batch h
     \<and> program_count (fold ph_event body h) = program_count h \<and> skipped_programs (fold ph_event body h) = skipped_programs h
     \<and> ph_db (fold ph_event body h) = ph_db h"
  using assms
proof (induction body arbitrary: h)
  case Nil then show ?case by simp
next
  case (Cons e body)
  from Cons.prems have a: "\<not> is_programme_tag e" and b: "\<forall>e\<in>set body. \<not> is_programme_tag e" by simp_all
  note s = ph_event_outside[OF Cons.prems(1) a]
  from Cons.IH[of "ph_event e h"] s b show ?case by simp
qed

lemma ph_event_inside:
  assumes "in_programme h" "\<not> is_programme_tag e"
  shows "in_programme (ph_event e h) \<and> program_batch (ph_event e h) = program_batch h
     \<and> program_count (ph_event e h) = program_count h \<and> skipped_programs (ph_event e h) = skipped_programs h
     \<and> ph_db (ph_event e h) = ph_db h
     \<and> p_id (current_program (ph_event e h)) = p_id (current_program h)
     \<and> p_channel_id (current_program (ph_event e h)) = p_channel_id (current_program h)
     \<and> p_start (current_program (ph_event e h)) = p_start (current_program h)
     \<and> p_stop (current_program (ph_event e h)) = p_stop (current_program h)
     \<and> ph_batch_size (ph_event e h) = ph_batch_size h"
  using assms by (cases e) (simp_all add: ph_startElement_def ph_characters_def ph_endElement_def)

lemma ph_fold_inside:
  assumes "in_programme h" "\<forall>e\<in>set body. \<not> is_programme_tag e"
  shows "in_programme (fold ph_event body h) \<and> program_batch (fold ph_event body h) = program_batch h
     \<and> program_count (fold ph_event body h) = program_count h \<and> skipped_programs (fold ph_event body h) = skipped_programs h
     \<and> ph_db (fold ph_event body h) = ph_db h
     \<and> p_id (current_program (fold ph_event body h)) = p_id (current_program h)
     \<and> p_channel_id (current_program (fold ph_event body h)) = p_channel_id (current_program h)
     \<and> p_start (current_program (fold ph_event body h)) = p_start (current_program h)
     \<and> p_stop (current_program (fold ph_event body h)) = p_stop (current_program h)
     \<and> ph_batch_size (fold ph_event body h) = ph_batch_size h"
  using assms
proof (induction body arbitrary: h)
  case Nil then show ?case by simp
next
  case (Cons e body)
  from Cons.prems have a: "\<not> is_programme_tag e" and b: "\<forall>e\<in>set body. \<not> is_programme_tag e" by simp_all
  note s = ph_event_inside[OF Cons.prems(1) a]
  from Cons.IH[of "ph_event e h"] s b show ?case by simp
qed

lemma ph_start_accept:
  assumes "attrs_get attrs ''channel'' [] \<in> ph_channel_ids h"
  shows "in_programme (ph_startElement ''programme'' attrs h)"
    "program_batch (ph_startElement ''programme'' attrs h) = program_batch h"
    "program_count (ph_startElement ''programme'' attrs h) = program_count h"
    "skipped_programs (ph_startElement ''programme'' attrs h) = skipped_programs h"
    "ph_db (ph_startElement ''programme'' attrs h) = ph_db h"
    "ph_batch_size (ph_startElement ''programme'' attrs h) = ph_batch_size h"
    "p_id (current_program (ph_startElement ''programme'' attrs h)) =
       attrs_get attrs ''channel'' [] @ ''_'' @ attrs_get attrs ''start'' [] @ ''_'' @ attrs_get attrs ''stop'' []"
    "p_channel_id (current_program (ph_startElement ''programme'' attrs h)) = attrs_get attrs ''channel'' []"
    "p_start (current_program (ph_startElement ''programme'' attrs h)) = attrs_get attrs ''start'' []"
    "p_stop (current_program (ph_startElement ''programme'' attrs h)) = attrs_get attrs ''stop'' []"
  using assms by (simp_all add: ph_startElement_def Let_def)


text \<open>
  C2: a \<^verbatim>\<open>programme\<close> element whose \<^verbatim>\<open>channel\<close> attribute is not in the
  channel-id set of the pass contributes nothing: over the whole span of the element,
  from its opening tag to its closing tag, the batch, the connection (hence every stored
  row) and the program count are unchanged, and the skipped counter grows by exactly 1.
\<close>

theorem unknown_channel_programme_skipped:
  assumes "attrs_get attrs ''channel'' [] \<notin> ph_channel_ids h"
      and "\<forall>e\<in>set body. \<not> is_programme_tag e"
  shows "skipped_programs (fold ph_event (StartElement ''programme'' attrs # body @ [EndElement ''programme'']) h)
           = skipped_programs h + 1
       \<and> program_batch (fold ph_event (StartElement ''programme'' attrs # body @ [EndElement ''programme'']) h)
           = program_batch h
       \<and> program_count (fold ph_event (StartElement ''programme'' attrs # body @ [EndElement ''programme'']) h)
           = program_count h
       \<and> ph_db (fold ph_event (StartElement ''programme'' attrs # body @ [EndElement ''programme'']) h)
           = ph_db h"
proof -
  let ?h1 = "ph_startElement ''programme'' attrs h"
  have h1: "\<not> in_programme ?h1" "skipped_programs ?h1 = skipped_programs h + 1"
    "program_batch ?h1 = program_batch h" "program_count ?h1 = program_count h" "ph_db ?h1 = ph_db h"
    using assms(1) by (simp_all add: ph_startElement_def)
  note b = ph_fold_outside[OF h1(1) assms(2)]
  have "\<not> in_programme (fold ph_event body ?h1)" using b by simp
  then have "ph_endElement ''programme'' (fold ph_event body ?h1) = fold ph_event body ?h1"
    by (simp add: ph_endElement_def)
  then show ?thesis using b h1 by simp
qed

theorem unknown_channel_programme_skipped_witness:
  "skipped_programs (fold ph_event
       [StartElement ''programme'' [(''channel'', ''c3''), (''start'', ''1''), (''stop'', ''2'')],
        StartElement ''title'' [], Characters ''Lost'', EndElement ''title'',
        EndElement ''programme'']
       (ProgramHandler (idle_world empty_store) ''src'' ''guide.xml'' {''c1'', ''c2''})) = 1
   \<and> program_batch (fold ph_event
       [StartElement ''programme'' [(''channel'', ''c3''), (''start'', ''1''), (''stop'', ''2'')],
        StartElement ''title'' [], Characters ''Lost'', EndElement ''title'',
        EndElement ''programme'']
       (ProgramHandler (idle_world empty_store) ''src'' ''guide.xml'' {''c1'', ''c2''})) = []
   \<and> ph_db (fold ph_event
       [StartElement ''programme'' [(''channel'', ''c3''), (''start'', ''1''), (''stop'', ''2'')],
        StartElement ''title'' [], Characters ''Lost'', EndElement ''title'',
        EndElement ''programme'']
       (ProgramHandler (idle_world empty_store) ''src'' ''guide.xml'' {''c1'', ''c2''})) = idle_world empty_store"
proof -
  let ?attrs = "[(''channel'', ''c3''), (''start'', ''1''), (''stop'', ''2'')]"
  let ?body = "[StartElement ''title'' [], Characters ''Lost'', EndElement ''title'']"
  let ?h = "ProgramHandler (idle_world empty_store) ''src'' ''guide.xml'' {''c1'', ''c2''}"
  have 1: "attrs_get ?attrs ''channel'' [] \<notin> ph_channel_ids ?h"
    by (simp add: attrs_get_def ProgramHandler_def)
  have 2: "\<forall>e\<in>set ?body. \<not> is_programme_tag e" by simp
  have 4: "program_batch ?h = []" "skipped_programs ?h = 0" "ph_db ?h = idle_world empty_store"
    by (simp_all add: ProgramHandler_def)
  show ?thesis
    using unknown_channel_programme_skipped[OF 1 2] 4 by simp
qed




text \<open>
  C4: a \<^verbatim>\<open>programme\<close> element on a known channel whose title is empty when the
  closing tag is reached (no title element, or only white space) is dropped silently:
  it does not enter the batch, nothing is written, and neither the program count nor
  the skipped counter changes.
\<close>

theorem titleless_programme_dropped_silently:
  assumes "attrs_get attrs ''channel'' [] \<in> ph_channel_ids h"
      and "\<forall>e\<in>set body. \<not> is_programme_tag e"
      and "p_title (current_program (fold ph_event (StartElement ''programme'' attrs # body) h)) = []"
  shows "program_batch (fold ph_event (StartElement ''programme'' attrs # body @ [EndElement ''programme'']) h)
           = program_batch h
       \<and> ph_db (fold ph_event (StartElement ''programme'' attrs # body @ [EndElement ''programme'']) h)
           = ph_db h
       \<and> program_count (fold ph_event (StartElement ''programme'' attrs # body @ [EndElement ''programme'']) h)
           = program_count h
       \<and> skipped_programs (fold ph_event (StartElement ''programme'' attrs # body @ [EndElement ''programme'']) h)
           = skipped_programs h"
proof -
  let ?h0 = "ph_startElement ''programme'' attrs h"
  let ?h1 = "fold ph_event body ?h0"
  note a = ph_start_accept[OF assms(1)]
  note b = ph_fold_inside[OF a(1) assms(2)]
  have t: "p_title (current_program ?h1) = []" using assms(3) by simp
  have e: "ph_endElement ''programme'' ?h1 = ?h1\<lparr>in_programme := False\<rparr>"
    using b t by (simp add: ph_endElement_def Let_def)
  show ?thesis using a b e by simp
qed

theorem titleless_programme_dropped_silently_witness:
  "skipped_programs (fold ph_event
       [StartElement ''programme'' [(''channel'', ''c1''), (''start'', ''1''), (''stop'', ''2'')],
        StartElement ''title'' [], Characters ''  '', EndElement ''title'',
        StartElement ''desc'' [], Characters ''no title'', EndElement ''desc'',
        EndElement ''programme'']
       (ProgramHandler (idle_world empty_store) ''src'' ''guide.xml'' {''c1''})) = 0
   \<and> program_count (fold ph_event
       [StartElement ''programme'' [(''channel'', ''c1''), (''start'', ''1''), (''stop'', ''2'')],
        StartElement ''title'' [], Characters ''  '', EndElement ''title'',
        StartElement ''desc'' [], Characters ''no title'', EndElement ''desc'',
        EndElement ''programme'']
       (ProgramHandler (idle_world empty_store) ''src'' ''guide.xml'' {''c1''})) = 0
   \<and> program_batch (fold ph_event
       [StartElement ''programme'' [(''channel'', ''c1''), (''start'', ''1''), (''stop'', ''2'')],
        StartElement ''title'' [], Characters ''  '', EndElement ''title'',
        StartElement ''desc'' [], Characters ''no title'', EndElement ''desc'',
        EndElement ''programme'']
       (ProgramHandler (idle_world empty_store) ''src'' ''guide.xml'' {''c1''})) = []"
proof -
  let ?attrs = "[(''channel'', ''c1''), (''start'', ''1''), (''stop'', ''2'')]"
  let ?body = "[StartElement ''title'' [], Characters ''  '', EndElement ''title'',
        StartElement ''desc'' [], Characters ''no title'', EndElement ''desc'']"
  let ?h = "ProgramHandler (idle_world empty_store) ''src'' ''guide.xml'' {''c1''}"
  have 1: "attrs_get ?attrs ''channel'' [] \<in> ph_channel_ids ?h"
    by (simp add: attrs_get_def ProgramHandler_def)
  have 2: "\<forall>e\<in>set ?body. \<not> is_programme_tag e" by simp
  have 3: "p_title (current_program (fold ph_event (StartElement ''programme'' ?attrs # ?body) ?h)) = []"
    by (simp add: ProgramHandler_def ph_startElement_def ph_characters_def ph_endElement_def
          attrs_get_def strip_def is_space_def Let_def)
  have 4: "program_batch ?h = []" "program_count ?h = 0" "skipped_programs ?h = 0"
    by (simp_all add: ProgramHandler_def)
  show ?thesis
    using titleless_programme_dropped_silently[OF 1 2 3] 4 by simp
qed

section \<open>Batches and transactions\<close>

subsection \<open>What a transaction leaves on the connection\<close>







lemma channel_transaction_committed:
  assumes "snapshot w = None" "channel_transaction batch w = (None, w')"
  shows "snapshot w' = None
       \<and> fst (write_channels batch (w\<lparr>snapshot := Some (store w)\<rparr>)) = None
       \<and> store w' = store (snd (write_channels batch (w\<lparr>snapshot := Some (store w)\<rparr>)))"
proof -
  let ?w0 = "w\<lparr>snapshot := Some (store w)\<rparr>"
  have b: "begin_transaction w = (None, ?w0)" using assms(1) by (simp add: begin_transaction_def)
  obtain r w1 where wr: "write_channels batch ?w0 = (r, w1)" by (cases "write_channels batch ?w0")
  show ?thesis using assms(2) b wr
    by (auto simp: channel_transaction_def commit_def split: option.splits if_splits)
qed


lemma program_transaction_committed:
  assumes "snapshot w = None" "program_transaction batch w = (None, w')"
  shows "snapshot w' = None
       \<and> fst (write_programs batch (w\<lparr>snapshot := Some (store w)\<rparr>)) = None
       \<and> store w' = store (snd (write_programs batch (w\<lparr>snapshot := Some (store w)\<rparr>)))"
proof -
  let ?w0 = "w\<lparr>snapshot := Some (store w)\<rparr>"
  have b: "begin_transaction w = (None, ?w0)" using assms(1) by (simp add: begin_transaction_def)
  obtain r w1 where wr: "write_programs batch ?w0 = (r, w1)" by (cases "write_programs batch ?w0")
  show ?thesis using assms(2) b wr
    by (auto simp: program_transaction_def commit_def split: option.splits if_splits)
qed


lemma write_programs_no_fault:
  "faults w = [] \<Longrightarrow> fst (write_programs ps w) = None \<and> faults (snd (write_programs ps w)) = []"
proof (induction ps arbitrary: w)
  case Nil then show ?case by simp
next
  case (Cons p ps)
  obtain r w1 where e1: "execute (insert_or_replace_program p) w = (r, w1)"
    by (cases "execute (insert_or_replace_program p) w")
  have f1: "faults w1 = []" "r \<noteq> Some OperationalError" using e1 Cons.prems
    by (auto simp: execute_def Let_def next_fault_def insert_or_replace_program_def split: if_splits)
  then have f2: "faults (logger_error (ProgramIntegrityError (p_id p) (p_channel_id p)) w1) = []"
    by (simp add: logger_error_def)
  show ?case using e1 f1 Cons.IH[OF f1(1)] Cons.IH[OF f2]
    by (simp split: option.splits sql_error.splits)
qed




section \<open>The counters\<close>

subsection \<open>Unfolding the model on concrete inputs\<close>

lemmas handler_defs =
  ChannelHandler_def ProgramHandler_def ch_startElement_def ch_characters_def ch_endElement_def
  ch_endDocument_def ph_startElement_def ph_characters_def ph_endElement_def ph_endDocument_def
  process_channel_batch_def process_program_batch_def channel_transaction_def
  program_transaction_def attrs_get_def strip_def is_space_def empty_channel_def empty_program_def

lemmas store_defs =
  execute_def begin_transaction_def commit_def rollback_def logger_error_def next_fault_def
  insert_channel_def update_channel_def insert_or_replace_program_def delete_source_def
  insert_source_def update_source_statistics_def idle_world_def empty_store_def

lemmas parser_defs =
  TwoPassEPGParser_def first_pass_def second_pass_def update_statistics_def parse_def
  parse_epg_file_def

lemmas demo_defs = demo_source_def demo_channel_def demo_program_def demo_store_def demo_feed_def

subsection \<open>The counters do not depend on the connection\<close>




lemma process_program_batch_db:
  "process_program_batch (h\<lparr>ph_db := w\<rparr>) =
     (process_program_batch h)\<lparr>ph_db := ph_db (process_program_batch (h\<lparr>ph_db := w\<rparr>))\<rparr>"
  by (simp add: process_program_batch_def split: prod.splits option.splits)








text \<open>
  The same on a whole \<^verbatim>\<open>parse\<close>: the channel insert fails, the batch is rolled back,
  the programme then violates the foreign key and is left out; the counts 1 and 1 are
  written into the source row although no channel and no program row exists.
\<close>

lemma counts_exceed_rows_after_failed_batch:
  "tp_channel_count (snd (parse ''2024-05-01T10:00:00''
      (TwoPassEPGParser (XmlStream demo_feed True)
         ((idle_world (demo_store\<lparr>channels := Map.empty\<rparr>))\<lparr>faults := [True]\<rparr>)
         ''src'' ''guide.xml''))) = 1
   \<and> tp_program_count (snd (parse ''2024-05-01T10:00:00''
      (TwoPassEPGParser (XmlStream demo_feed True)
         ((idle_world (demo_store\<lparr>channels := Map.empty\<rparr>))\<lparr>faults := [True]\<rparr>)
         ''src'' ''guide.xml''))) = 1
   \<and> store (tp_db (snd (parse ''2024-05-01T10:00:00''
      (TwoPassEPGParser (XmlStream demo_feed True)
         ((idle_world (demo_store\<lparr>channels := Map.empty\<rparr>))\<lparr>faults := [True]\<rparr>)
         ''src'' ''guide.xml''))))
     = \<lparr>sources = [''src'' \<mapsto> demo_source\<lparr>s_channel_count := 1, s_program_count := 1,
                                           s_last_updated := ''2024-05-01T10:00:00''\<rparr>],
        channels = Map.empty, programs = Map.empty\<rparr>
   \<and> errlog (tp_db (snd (parse ''2024-05-01T10:00:00''
      (TwoPassEPGParser (XmlStream demo_feed True)
         ((idle_world (demo_store\<lparr>channels := Map.empty\<rparr>))\<lparr>faults := [True]\<rparr>)
         ''src'' ''guide.xml''))))
     = [ChannelBatchError OperationalError, ProgramIntegrityError ''c1_1_2'' ''c1'']"
  by (simp add: parser_defs handler_defs store_defs demo_defs Let_def
        cong: prod.case_cong_weak let_weak_cong)

section \<open>One source, from deletion to statistics\<close>

subsection \<open>\<^verbatim>\<open>process_source\<close> on a connection without faults\<close>

lemma delete_source_total: "delete_source sid s = Inr (without_source sid s)"
  by (simp add: without_source_def delete_source_def split: option.splits)

lemma without_source_sources: "sid \<notin> dom (sources (without_source sid s))"
  by (auto simp: without_source_def delete_source_def split: option.splits)

lemma insert_source_fresh:
  "md5_hexdigest env url \<notin> dom (sources s) \<Longrightarrow>
   insert_source (current_timestamp env) (md5_hexdigest env url) (last_segment url) url s
     = Inr (with_new_source env url s)"
  by (simp add: with_new_source_def insert_source_def)

lemma process_source_idle:
  assumes "faults w = []" "snapshot w = None"
  shows "process_source env url w =
     (case local_path_of env url of
        None \<Rightarrow> (Inr False, w\<lparr>store := without_source (md5_hexdigest env url) (store w)\<rparr>)
      | Some path \<Rightarrow>
          (Inr (fst (parse_epg_file env path
                  (w\<lparr>store := with_new_source env url (without_source (md5_hexdigest env url) (store w))\<rparr>)
                  (md5_hexdigest env url) (last_segment url))),
           tp_db (snd (parse_epg_file env path
                  (w\<lparr>store := with_new_source env url (without_source (md5_hexdigest env url) (store w))\<rparr>)
                  (md5_hexdigest env url) (last_segment url)))))"
proof -
  let ?sid = "md5_hexdigest env url"
  let ?w1 = "w\<lparr>snapshot := Some (store w), store := without_source ?sid (store w)\<rparr>"
  let ?w2 = "w\<lparr>store := without_source ?sid (store w)\<rparr>"
  let ?w3 = "w\<lparr>snapshot := Some (without_source ?sid (store w)),
               store := with_new_source env url (without_source ?sid (store w))\<rparr>"
  let ?w4 = "w\<lparr>store := with_new_source env url (without_source ?sid (store w))\<rparr>"
  have 1: "execute (delete_source ?sid) w = (None, ?w1)"
    using assms by (cases w) (simp add: execute_def next_fault_def delete_source_total Let_def)
  have 2: "commit ?w1 = (None, ?w2)"
    using assms by (cases w) (simp add: commit_def next_fault_def)
  have 3: "execute (insert_source (current_timestamp env) ?sid (last_segment url) url) ?w2 = (None, ?w3)"
    using assms insert_source_fresh[OF without_source_sources, of env url "store w"]
    by (cases w) (simp add: execute_def next_fault_def Let_def)
  have 4: "commit ?w3 = (None, ?w4)"
    using assms by (cases w) (simp add: commit_def next_fault_def)
  show ?thesis
    unfolding process_source_def local_path_of_def Let_def
    by (simp add: 1 2 3 4 split: option.splits prod.splits)
qed

lemmas source_defs =
  without_source_def with_new_source_def local_path_of_def starts_with_def last_segment_def
  demo_environment_def

lemma parse_reports_success: "fst (parse current_time p) = True"
  by (simp add: parse_def Let_def)

lemma process_source_never_reports_parse_failure:
  "process_source env url w = (Inr False, w') \<Longrightarrow> local_path_of env url = None"
  by (auto simp: process_source_def local_path_of_def parse_epg_file_def parse_def Let_def
           split: prod.splits option.splits if_splits)

text \<open>
  C1 asks that a stream-level failure in a pass aborts both passes and makes the outcome
  of the source a failure.  The code does not do this: \<^verbatim>\<open>parse\<close> ignores the
  \<^verbatim>\<open>False\<close> that \<^verbatim>\<open>_first_pass\<close> and \<^verbatim>\<open>_second_pass\<close> return.  On a document that
  is cut off before its last closing tag the first pass fails, the second pass is still
  run (and fails too), the statistics are written, and \<^verbatim>\<open>process_source\<close> returns
  \<^verbatim>\<open>True\<close>.
\<close>

theorem stream_failure_still_reports_success:
  "fst (process_source (demo_environment (XmlStream (butlast demo_feed) False)) ''guide.xml''
          (idle_world empty_store)) = Inr True
   \<and> errlog (snd (process_source (demo_environment (XmlStream (butlast demo_feed) False)) ''guide.xml''
          (idle_world empty_store))) = [FirstPassError, SecondPassError]
   \<and> sources (store (snd (process_source (demo_environment (XmlStream (butlast demo_feed) False))
          ''guide.xml'' (idle_world empty_store)))) ''md5-guide.xml''
       = Some \<lparr>s_name = ''guide.xml'', s_url = Some ''guide.xml'', s_file_path = None,
               s_channel_count = 0, s_program_count = 0,
               s_last_updated = ''2024-05-01T10:00:00''\<rparr>"
proof -
  have i: "faults (idle_world empty_store) = []" "snapshot (idle_world empty_store) = None"
    by (simp_all add: idle_world_def)
  show ?thesis
    unfolding process_source_idle[OF i]
    by (simp add: source_defs parser_defs handler_defs store_defs demo_defs Let_def
          cong: prod.case_cong_weak let_weak_cong)
qed

subsection \<open>Deleting a source\<close>

lemma without_source_channels:
  "referential_integrity s \<Longrightarrow>
   channels (without_source sid s) k =
     (case channels s k of None \<Rightarrow> None
      | Some c \<Rightarrow> if c_source_id c = sid then None else Some c)"
  by (auto simp: without_source_def delete_source_def referential_integrity_def
           split: option.splits)

lemma without_source_programs:
  "referential_integrity s \<Longrightarrow>
   programs (without_source sid s) k =
     (case programs s k of None \<Rightarrow> None
      | Some p \<Rightarrow> (case channels s (p_channel_id p) of None \<Rightarrow> Some p
                   | Some c \<Rightarrow> if c_source_id c = sid then None else Some p))"
  by (auto simp: without_source_def delete_source_def referential_integrity_def
           split: option.splits)

lemma without_source_sources_eq:
  "sources (without_source sid s) = (sources s)(sid := None)"
  by (auto simp: without_source_def delete_source_def split: option.splits)

lemma without_source_integrity:
  assumes "referential_integrity s"
  shows "referential_integrity (without_source sid s)"
  unfolding referential_integrity_def
proof (intro conjI allI impI)
  fix k c assume "channels (without_source sid s) k = Some c"
  then have "channels s k = Some c" "c_source_id c \<noteq> sid"
    using without_source_channels[OF assms, of sid k] by (auto split: option.splits if_splits)
  then show "c_source_id c \<in> dom (sources (without_source sid s))"
    using assms by (auto simp: without_source_sources_eq referential_integrity_def)
next
  fix k p assume "programs (without_source sid s) k = Some p"
  then have a: "programs s k = Some p"
    and b: "\<forall>c. channels s (p_channel_id p) = Some c \<longrightarrow> c_source_id c \<noteq> sid"
    using without_source_programs[OF assms, of sid k] by (auto split: option.splits if_splits)
  from a assms have "p_channel_id p \<in> dom (channels s)"
    unfolding referential_integrity_def by blast
  then obtain c where c: "channels s (p_channel_id p) = Some c" by blast
  with b have "c_source_id c \<noteq> sid" by simp
  with c have "channels (without_source sid s) (p_channel_id p) = Some c"
    using without_source_channels[OF assms, of sid "p_channel_id p"] by simp
  then show "p_channel_id p \<in> dom (channels (without_source sid s))" by auto
qed

lemma without_source_no_rows:
  assumes "referential_integrity s"
  shows "channels_of sid (without_source sid s) = {}" "programs_of sid (without_source sid s) = {}"
proof -
  show "channels_of sid (without_source sid s) = {}"
    using without_source_channels[OF assms, of sid]
    by (auto simp: channels_of_def split: option.splits if_splits)
  show "programs_of sid (without_source sid s) = {}"
    using without_source_channels[OF assms, of sid]
    by (auto simp: programs_of_def split: option.splits if_splits)
qed

lemma with_new_source_tables:
  "channels (with_new_source env url s) = channels s"
  "programs (with_new_source env url s) = programs s"
  by (simp_all add: with_new_source_def insert_source_def)

lemma with_new_source_sources:
  "md5_hexdigest env url \<notin> dom (sources s) \<Longrightarrow>
   dom (sources (with_new_source env url s)) = insert (md5_hexdigest env url) (dom (sources s))"
  by (auto simp: with_new_source_def insert_source_def)

lemma with_new_source_integrity:
  "referential_integrity s \<Longrightarrow> referential_integrity (with_new_source env url s)"
  by (auto simp: with_new_source_def insert_source_def referential_integrity_def)

lemma with_new_source_rows:
  "channels_of sid (with_new_source env url s) = channels_of sid s"
  "programs_of sid (with_new_source env url s) = programs_of sid s"
  by (simp_all add: channels_of_def programs_of_def with_new_source_tables)

text \<open>
  C6: on a store with referential integrity, deleting the row of a source leaves no
  channel of that source and no program on such a channel, and the store keeps its
  referential integrity (no orphaned program row).  Consequently, whenever
  \<^verbatim>\<open>process_source\<close> reaches the parser (no store fault, file obtained), parsing starts
  on a store that holds the fresh source row and zero channel and program rows of that
  source.
\<close>

theorem source_deletion_cascades:
  assumes "referential_integrity s"
  shows "delete_source sid s = Inr (without_source sid s)
       \<and> sid \<notin> dom (sources (without_source sid s))
       \<and> channels_of sid (without_source sid s) = {}
       \<and> programs_of sid (without_source sid s) = {}
       \<and> (\<forall>k \<in> channels_of sid s. channels (without_source sid s) k = None)
       \<and> (\<forall>k \<in> programs_of sid s. programs (without_source sid s) k = None)
       \<and> referential_integrity (without_source sid s)
       \<and> (\<forall>(w::world) env url path. faults w = [] \<longrightarrow> snapshot w = None \<longrightarrow> store w = s \<longrightarrow>
             md5_hexdigest env url = sid \<longrightarrow> local_path_of env url = Some path \<longrightarrow>
             (\<exists>w4. process_source env url w =
                      (Inr (fst (parse_epg_file env path w4 sid (last_segment url))),
                       tp_db (snd (parse_epg_file env path w4 sid (last_segment url))))
                 \<and> sid \<in> dom (sources (store w4))
                 \<and> channels_of sid (store w4) = {}
                 \<and> programs_of sid (store w4) = {}
                 \<and> referential_integrity (store w4)))"
proof -
  note n = without_source_no_rows[OF assms, of sid]
  have a: "\<forall>k \<in> channels_of sid s. channels (without_source sid s) k = None"
    using without_source_channels[OF assms, of sid] by (auto simp: channels_of_def)
  have b: "\<forall>k \<in> programs_of sid s. programs (without_source sid s) k = None"
    using without_source_programs[OF assms, of sid] by (auto simp: programs_of_def)
  have c: "\<forall>(w::world) env url path. faults w = [] \<longrightarrow> snapshot w = None \<longrightarrow> store w = s \<longrightarrow>
             md5_hexdigest env url = sid \<longrightarrow> local_path_of env url = Some path \<longrightarrow>
             (\<exists>w4. process_source env url w =
                      (Inr (fst (parse_epg_file env path w4 sid (last_segment url))),
                       tp_db (snd (parse_epg_file env path w4 sid (last_segment url))))
                 \<and> sid \<in> dom (sources (store w4))
                 \<and> channels_of sid (store w4) = {}
                 \<and> programs_of sid (store w4) = {}
                 \<and> referential_integrity (store w4))"
  proof (intro allI impI)
    fix w :: world and env url path
    assume h: "faults w = []" "snapshot w = None" "store w = s" "md5_hexdigest env url = sid"
       "local_path_of env url = Some path"
    let ?w4 = "w\<lparr>store := with_new_source env url (without_source sid s)\<rparr>"
    have f: "md5_hexdigest env url \<notin> dom (sources (without_source sid s))"
      using h(4) without_source_sources[of sid s] by simp
    have "process_source env url w =
                      (Inr (fst (parse_epg_file env path ?w4 sid (last_segment url))),
                       tp_db (snd (parse_epg_file env path ?w4 sid (last_segment url))))"
      using process_source_idle[OF h(1,2), of env url] h(3,4,5) by simp
    moreover have "sid \<in> dom (sources (store ?w4))"
      using with_new_source_sources[OF f] h(4) by simp
    moreover have "channels_of sid (store ?w4) = {}" "programs_of sid (store ?w4) = {}"
      using n by (simp_all add: with_new_source_rows)
    moreover have "referential_integrity (store ?w4)"
      using with_new_source_integrity[OF without_source_integrity[OF assms]] by simp
    ultimately show "\<exists>w4. process_source env url w =
                      (Inr (fst (parse_epg_file env path w4 sid (last_segment url))),
                       tp_db (snd (parse_epg_file env path w4 sid (last_segment url))))
                 \<and> sid \<in> dom (sources (store w4))
                 \<and> channels_of sid (store w4) = {}
                 \<and> programs_of sid (store w4) = {}
                 \<and> referential_integrity (store w4)" by blast
  qed
  show ?thesis
    using delete_source_total without_source_sources n a b without_source_integrity[OF assms] c
    by blast
qed

theorem source_deletion_cascades_witness:
  "delete_source ''src'' two_source_store = Inr (without_source ''src'' two_source_store)
   \<and> sources (without_source ''src'' two_source_store) ''src'' = None
   \<and> channels (without_source ''src'' two_source_store) ''c1'' = None
   \<and> programs (without_source ''src'' two_source_store) ''c1_1_2'' = None
   \<and> channels (without_source ''src'' two_source_store) ''c7''
       = Some ((demo_channel ''c7'' ''Seven'')\<lparr>c_source_id := ''other''\<rparr>)
   \<and> programs (without_source ''src'' two_source_store) ''c7_1_2''
       = Some (demo_program ''c7'' ''Film'')
   \<and> referential_integrity (without_source ''src'' two_source_store)"
proof -
  have i: "referential_integrity two_source_store"
    by (auto simp: referential_integrity_def two_source_store_def demo_channel_def demo_program_def
             split: if_splits)
  note T = source_deletion_cascades[OF i, of "''src''"]
  have c: "''c1'' \<in> channels_of ''src'' two_source_store"
    by (simp add: channels_of_def two_source_store_def demo_channel_def)
  have p: "''c1_1_2'' \<in> programs_of ''src'' two_source_store"
    by (simp add: programs_of_def two_source_store_def demo_channel_def demo_program_def)
  have k: "channels (without_source ''src'' two_source_store) ''c7''
             = Some ((demo_channel ''c7'' ''Seven'')\<lparr>c_source_id := ''other''\<rparr>)"
      "programs (without_source ''src'' two_source_store) ''c7_1_2''
             = Some (demo_program ''c7'' ''Film'')"
    by (simp_all add: without_source_def delete_source_def two_source_store_def demo_channel_def
          demo_program_def)
  from T c p k show ?thesis by blast
qed

section \<open>Two runs in lockstep\<close>

subsection \<open>Statements, transactions and flushes\<close>

lemma process_channel_batch_flush:
  "process_channel_batch h =
     (if channel_batch h = [] then h
      else h\<lparr>ch_db := flush_channels (channel_batch h) (ch_db h), channel_batch := []\<rparr>)"
  by (simp add: process_channel_batch_def flush_channels_def split: prod.splits option.splits)

lemma process_program_batch_flush:
  "process_program_batch h =
     (if program_batch h = [] then h
      else h\<lparr>ph_db := flush_programs (program_batch h) (ph_db h), program_batch := []\<rparr>)"
  by (simp add: process_program_batch_def flush_programs_def split: prod.splits option.splits)

lemma execute_sim:
  assumes "statement_sim R f g" "world_sim R w v"
  shows "fst (execute f w) = fst (execute g v)
       \<and> world_sim R (snd (execute f w)) (snd (execute g v))"
proof -
  have nf: "next_fault w = next_fault v" using assms(2) by (simp add: world_sim_def next_fault_def)
  have r: "R (store w) (store v)" using assms(2) by (simp add: world_sim_def)
  have st: "case f (store w) of Inl e \<Rightarrow> g (store v) = Inl e
            | Inr s' \<Rightarrow> (case g (store v) of Inl _ \<Rightarrow> False | Inr t' \<Rightarrow> R s' t')"
    using assms(1) r unfolding statement_sim_def by blast
  show ?thesis
    using assms(2) nf st
    by (auto simp: execute_def world_sim_def Let_def split: sum.splits option.splits)
qed

lemma begin_sim:
  assumes "world_sim R w v"
  shows "fst (begin_transaction w) = fst (begin_transaction v)
       \<and> world_sim R (snd (begin_transaction w)) (snd (begin_transaction v))"
  using assms by (auto simp: begin_transaction_def world_sim_def split: option.splits)

lemma commit_sim:
  assumes "world_sim R w v"
  shows "fst (commit w) = fst (commit v) \<and> world_sim R (snd (commit w)) (snd (commit v))"
  using assms by (auto simp: commit_def world_sim_def next_fault_def split: option.splits)

lemma rollback_sim:
  assumes "world_sim R w v"
  shows "world_sim R (rollback w) (rollback v)"
  using assms by (auto simp: rollback_def world_sim_def split: option.splits)

lemma logger_sim:
  assumes "world_sim R w v"
  shows "world_sim R (logger_error e w) (logger_error e' v)"
  using assms by (auto simp: logger_error_def world_sim_def split: option.splits)

lemma write_channels_sim:
  assumes "channel_writes_sim R sid A" "\<forall>c\<in>set cs. channel_ok sid A c" "world_sim R w v"
  shows "fst (write_channels cs w) = fst (write_channels cs v)
       \<and> world_sim R (snd (write_channels cs w)) (snd (write_channels cs v))"
  using assms(2,3)
proof (induction cs arbitrary: w v)
  case Nil then show ?case by simp
next
  case (Cons c cs)
  have ok: "channel_ok sid A c" and rest: "\<forall>c\<in>set cs. channel_ok sid A c" using Cons.prems(1) by simp_all
  have si: "statement_sim R (insert_channel c) (insert_channel c)"
    and su: "statement_sim R (update_channel c) (update_channel c)"
    using assms(1) ok unfolding channel_writes_sim_def by blast+
  obtain r1 w1 where e1: "execute (insert_channel c) w = (r1, w1)" by (cases "execute (insert_channel c) w")
  obtain r1' v1 where e1': "execute (insert_channel c) v = (r1', v1)" by (cases "execute (insert_channel c) v")
  have s1: "r1 = r1'" "world_sim R w1 v1" using execute_sim[OF si Cons.prems(2)] e1 e1' by simp_all
  obtain r2 w2 where e2: "execute (update_channel c) w1 = (r2, w2)" by (cases "execute (update_channel c) w1")
  obtain r2' v2 where e2': "execute (update_channel c) v1 = (r2', v2)" by (cases "execute (update_channel c) v1")
  have s2: "r2 = r2'" "world_sim R w2 v2" using execute_sim[OF su s1(2)] e2 e2' by simp_all
  show ?case
    using e1 e1' e2 e2' s1 s2 Cons.IH[OF rest s1(2)] Cons.IH[OF rest s2(2)]
    by (simp split: option.splits sql_error.splits)
qed

lemma write_programs_sim:
  assumes "program_writes_sim R" "world_sim R w v"
  shows "fst (write_programs ps w) = fst (write_programs ps v)
       \<and> world_sim R (snd (write_programs ps w)) (snd (write_programs ps v))"
  using assms(2)
proof (induction ps arbitrary: w v)
  case Nil then show ?case by simp
next
  case (Cons p ps)
  have si: "statement_sim R (insert_or_replace_program p) (insert_or_replace_program p)"
    using assms(1) unfolding program_writes_sim_def by blast
  obtain r1 w1 where e1: "execute (insert_or_replace_program p) w = (r1, w1)"
    by (cases "execute (insert_or_replace_program p) w")
  obtain r1' v1 where e1': "execute (insert_or_replace_program p) v = (r1', v1)"
    by (cases "execute (insert_or_replace_program p) v")
  have s1: "r1 = r1'" "world_sim R w1 v1" using execute_sim[OF si Cons.prems] e1 e1' by simp_all
  note l = logger_sim[OF s1(2), of "ProgramIntegrityError (p_id p) (p_channel_id p)"
                                  "ProgramIntegrityError (p_id p) (p_channel_id p)"]
  show ?case
    using e1 e1' s1 Cons.IH[OF s1(2)] Cons.IH[OF l]
    by (simp split: option.splits sql_error.splits)
qed

lemma channel_transaction_sim:
  assumes "channel_writes_sim R sid A" "\<forall>c\<in>set cs. channel_ok sid A c" "world_sim R w v"
  shows "fst (channel_transaction cs w) = fst (channel_transaction cs v)
       \<and> world_sim R (snd (channel_transaction cs w)) (snd (channel_transaction cs v))"
proof -
  obtain r0 w0 where b: "begin_transaction w = (r0, w0)" by (cases "begin_transaction w")
  obtain r0' v0 where b': "begin_transaction v = (r0', v0)" by (cases "begin_transaction v")
  have s0: "r0 = r0'" "world_sim R w0 v0" using begin_sim[OF assms(3)] b b' by simp_all
  obtain r1 w1 where x: "write_channels cs w0 = (r1, w1)" by (cases "write_channels cs w0")
  obtain r1' v1 where x': "write_channels cs v0 = (r1', v1)" by (cases "write_channels cs v0")
  have s1: "r1 = r1'" "world_sim R w1 v1"
    using write_channels_sim[OF assms(1,2) s0(2)] x x' by simp_all
  show ?thesis
    using b b' s0 x x' s1 commit_sim[OF s1(2)]
    by (simp add: channel_transaction_def split: option.splits)
qed

lemma program_transaction_sim:
  assumes "program_writes_sim R" "world_sim R w v"
  shows "fst (program_transaction ps w) = fst (program_transaction ps v)
       \<and> world_sim R (snd (program_transaction ps w)) (snd (program_transaction ps v))"
proof -
  obtain r0 w0 where b: "begin_transaction w = (r0, w0)" by (cases "begin_transaction w")
  obtain r0' v0 where b': "begin_transaction v = (r0', v0)" by (cases "begin_transaction v")
  have s0: "r0 = r0'" "world_sim R w0 v0" using begin_sim[OF assms(2)] b b' by simp_all
  obtain r1 w1 where x: "write_programs ps w0 = (r1, w1)" by (cases "write_programs ps w0")
  obtain r1' v1 where x': "write_programs ps v0 = (r1', v1)" by (cases "write_programs ps v0")
  have s1: "r1 = r1'" "world_sim R w1 v1"
    using write_programs_sim[where ps=ps, OF assms(1) s0(2)] x x' by simp_all
  show ?thesis
    using b b' s0 x x' s1 commit_sim[OF s1(2)]
    by (simp add: program_transaction_def split: option.splits)
qed

lemma flush_channels_sim:
  assumes "channel_writes_sim R sid A" "\<forall>c\<in>set cs. channel_ok sid A c" "world_sim R w v"
  shows "world_sim R (flush_channels cs w) (flush_channels cs v)"
proof -
  obtain r w' where t: "channel_transaction cs w = (r, w')" by (cases "channel_transaction cs w")
  obtain r' v' where t': "channel_transaction cs v = (r', v')" by (cases "channel_transaction cs v")
  have s: "r = r'" "world_sim R w' v'" using channel_transaction_sim[OF assms] t t' by simp_all
  show ?thesis
  proof (cases r)
    case None
    then show ?thesis using t t' s by (simp add: flush_channels_def)
  next
    case (Some e)
    then show ?thesis
      using t t' s rollback_sim[OF logger_sim[OF s(2), of "ChannelBatchError e" "ChannelBatchError e"]]
      by (simp add: flush_channels_def)
  qed
qed

lemma flush_programs_sim:
  assumes "program_writes_sim R" "world_sim R w v"
  shows "world_sim R (flush_programs ps w) (flush_programs ps v)"
proof -
  obtain r w' where t: "program_transaction ps w = (r, w')" by (cases "program_transaction ps w")
  obtain r' v' where t': "program_transaction ps v = (r', v')" by (cases "program_transaction ps v")
  have s: "r = r'" "world_sim R w' v'" using program_transaction_sim[where ps=ps, OF assms] t t' by simp_all
  show ?thesis
  proof (cases r)
    case None
    then show ?thesis using t t' s by (simp add: flush_programs_def)
  next
    case (Some e)
    then show ?thesis
      using t t' s rollback_sim[OF logger_sim[OF s(2), of "ProgramBatchError e" "ProgramBatchError e"]]
      by (simp add: flush_programs_def)
  qed
qed

subsection \<open>The handlers\<close>

lemma idle_world_sim: "idle_sim R w v \<Longrightarrow> world_sim R w v"
  by (simp add: idle_sim_def world_sim_def)

lemma execute_faults: "faults w = [] \<Longrightarrow> faults (snd (execute f w)) = []"
  by (simp add: execute_def Let_def split: sum.splits)

lemma write_channels_faults: "faults w = [] \<Longrightarrow> faults (snd (write_channels cs w)) = []"
proof (induction cs arbitrary: w)
  case Nil then show ?case by simp
next
  case (Cons c cs)
  obtain r1 w1 where e1: "execute (insert_channel c) w = (r1, w1)" by (cases "execute (insert_channel c) w")
  have f1: "faults w1 = []" using execute_faults[OF Cons.prems, of "insert_channel c"] e1 by simp
  obtain r2 w2 where e2: "execute (update_channel c) w1 = (r2, w2)" by (cases "execute (update_channel c) w1")
  have f2: "faults w2 = []" using execute_faults[OF f1, of "update_channel c"] e2 by simp
  show ?case using e1 e2 f1 f2 Cons.IH[OF f1] Cons.IH[OF f2]
    by (simp split: option.splits sql_error.splits)
qed

lemma flush_channels_idle:
  assumes "faults w = []" "snapshot w = None"
  shows "faults (flush_channels cs w) = [] \<and> snapshot (flush_channels cs w) = None"
proof -
  obtain r w' where t: "channel_transaction cs w = (r, w')" by (cases "channel_transaction cs w")
  let ?w0 = "w\<lparr>snapshot := Some (store w)\<rparr>"
  have b: "begin_transaction w = (None, ?w0)" using assms(2) by (simp add: begin_transaction_def)
  obtain r1 w1 where x: "write_channels cs ?w0 = (r1, w1)" by (cases "write_channels cs ?w0")
  have f1: "faults w1 = []" using write_channels_faults[of ?w0 cs] assms(1) x by simp
  have f: "faults w' = []" using t b x f1
    by (auto simp: channel_transaction_def commit_def split: option.splits if_splits)
  show ?thesis
  proof (cases r)
    case None
    then show ?thesis using t f channel_transaction_committed[OF assms(2), of cs w']
      by (simp add: flush_channels_def)
  next
    case (Some e)
    then show ?thesis using t f
      by (simp add: flush_channels_def rollback_def logger_error_def split: option.splits)
  qed
qed

lemma flush_programs_idle:
  assumes "faults w = []" "snapshot w = None"
  shows "faults (flush_programs ps w) = [] \<and> snapshot (flush_programs ps w) = None"
proof -
  obtain r w' where t: "program_transaction ps w = (r, w')" by (cases "program_transaction ps w")
  let ?w0 = "w\<lparr>snapshot := Some (store w)\<rparr>"
  have b: "begin_transaction w = (None, ?w0)" using assms(2) by (simp add: begin_transaction_def)
  obtain r1 w1 where x: "write_programs ps ?w0 = (r1, w1)" by (cases "write_programs ps ?w0")
  have f1: "faults w1 = []" using write_programs_no_fault[of ?w0 ps] assms(1) x by simp
  have f: "faults w' = []" using t b x f1
    by (auto simp: program_transaction_def commit_def split: option.splits if_splits)
  show ?thesis
  proof (cases r)
    case None
    then show ?thesis using t f program_transaction_committed[OF assms(2), of ps w']
      by (simp add: flush_programs_def)
  next
    case (Some e)
    then show ?thesis using t f
      by (simp add: flush_programs_def rollback_def logger_error_def split: option.splits)
  qed
qed

lemma flush_channels_idle_sim:
  assumes "channel_writes_sim R sid A" "\<forall>c\<in>set cs. channel_ok sid A c" "idle_sim R w v"
  shows "idle_sim R (flush_channels cs w) (flush_channels cs v)"
proof -
  have i: "faults w = []" "snapshot w = None" "faults v = []" "snapshot v = None"
    using assms(3) by (simp_all add: idle_sim_def)
  note a = flush_channels_idle[OF i(1,2), of cs] flush_channels_idle[OF i(3,4), of cs]
  note s = flush_channels_sim[OF assms(1,2) idle_world_sim[OF assms(3)]]
  show ?thesis using a s by (simp add: idle_sim_def world_sim_def)
qed

lemma flush_programs_idle_sim:
  assumes "program_writes_sim R" "idle_sim R w v"
  shows "idle_sim R (flush_programs ps w) (flush_programs ps v)"
proof -
  have i: "faults w = []" "snapshot w = None" "faults v = []" "snapshot v = None"
    using assms(2) by (simp_all add: idle_sim_def)
  note a = flush_programs_idle[OF i(1,2), of ps] flush_programs_idle[OF i(3,4), of ps]
  note s = flush_programs_sim[OF assms(1) idle_world_sim[OF assms(2)], of ps]
  show ?thesis using a s by (simp add: idle_sim_def world_sim_def)
qed

lemma process_channel_batch_rel:
  assumes "channel_writes_sim R sid A" "ch_rel R sid A h g"
  shows "ch_rel R sid A (process_channel_batch h) (process_channel_batch g)"
proof -
  obtain wg where g: "g = h\<lparr>ch_db := wg\<rparr>" using assms(2) unfolding ch_rel_def by blast
  have i: "idle_sim R (ch_db h) wg" and v: "ch_inv sid A h"
    using assms(2) g unfolding ch_rel_def by simp_all
  have ok: "\<forall>c\<in>set (channel_batch h). channel_ok sid A c" using v by (simp add: ch_inv_def)
  note f = flush_channels_idle_sim[OF assms(1) ok i]
  show ?thesis using g i v f
    by (simp add: process_channel_batch_flush ch_rel_def ch_inv_def)
qed

lemma ch_event_rel:
  assumes "channel_writes_sim R sid A" "ch_rel R sid A h g" "opens_within A e"
  shows "ch_rel R sid A (ch_event e h) (ch_event e g)"
proof -
  obtain wg where g: "g = h\<lparr>ch_db := wg\<rparr>" using assms(2) unfolding ch_rel_def by blast
  have i: "idle_sim R (ch_db h) wg" and v: "ch_inv sid A h"
    using assms(2) g unfolding ch_rel_def by simp_all
  show ?thesis
  proof (cases e)
    case (StartElement n a)
    then show ?thesis using g i v assms(3)
      by (simp add: ch_startElement_def ch_rel_def ch_inv_def channel_ok_def Let_def)
  next
    case (Characters c)
    then show ?thesis using g i v
      by (simp add: ch_characters_def ch_rel_def ch_inv_def)
  next
    case (EndElement n)
    let ?h2 = "h\<lparr>in_channel := False,
                 channel_batch := channel_batch h @ [current_channel h],
                 ch_channel_ids := insert (c_id (current_channel h)) (ch_channel_ids h),
                 channel_count := channel_count h + 1\<rparr>"
    consider (out) "\<not> in_channel h"
      | (accept) "in_channel h" "n = ''channel''" "c_id (current_channel h) \<noteq> []"
      | (other) "in_channel h" "\<not> (n = ''channel'' \<and> c_id (current_channel h) \<noteq> [])"
      by blast
    then show ?thesis
    proof cases
      case out
      then show ?thesis using EndElement assms(2) g by (simp add: ch_endElement_def)
    next
      case accept
      have r2: "ch_rel R sid A ?h2 (?h2\<lparr>ch_db := wg\<rparr>)"
        using i v accept by (simp add: ch_rel_def ch_inv_def)
      have p2: "ch_rel R sid A (process_channel_batch ?h2) (process_channel_batch (?h2\<lparr>ch_db := wg\<rparr>))"
        by (rule process_channel_batch_rel[OF assms(1) r2])
      have eh: "ch_endElement n h =
          (if ch_batch_size h \<le> length (channel_batch ?h2) then process_channel_batch ?h2 else ?h2)"
        using accept by (simp add: ch_endElement_def Let_def)
      have eg: "ch_endElement n g =
          (if ch_batch_size h \<le> length (channel_batch ?h2)
           then process_channel_batch (?h2\<lparr>ch_db := wg\<rparr>) else ?h2\<lparr>ch_db := wg\<rparr>)"
      proof -
        have arg: "h\<lparr>ch_db := wg, in_channel := False,
                 channel_batch := channel_batch h @ [current_channel h],
                 ch_channel_ids := insert (c_id (current_channel h)) (ch_channel_ids h),
                 channel_count := channel_count h + 1\<rparr> = ?h2\<lparr>ch_db := wg\<rparr>"
          by simp
        show ?thesis using accept g by (simp add: ch_endElement_def Let_def arg)
      qed
      show ?thesis using EndElement eh eg r2 p2 by simp
    next
      case other
      have "ch_endElement n g = (ch_endElement n h)\<lparr>ch_db := wg\<rparr>"
        using other g by (auto simp: ch_endElement_def Let_def)
      moreover have "ch_db (ch_endElement n h) = ch_db h" "ch_inv sid A (ch_endElement n h)"
        using other v by (auto simp: ch_endElement_def Let_def ch_inv_def channel_ok_def)
      ultimately show ?thesis using EndElement i by (simp add: ch_rel_def)
    qed
  qed
qed

lemma ch_fold_rel:
  assumes "channel_writes_sim R sid A"
  shows "ch_rel R sid A h g \<Longrightarrow> \<forall>e\<in>set evs. opens_within A e \<Longrightarrow>
         ch_rel R sid A (fold ch_event evs h) (fold ch_event evs g)"
proof (induction evs arbitrary: h g)
  case Nil then show ?case by simp
next
  case (Cons e evs)
  have 1: "ch_rel R sid A (ch_event e h) (ch_event e g)"
    using ch_event_rel[OF assms Cons.prems(1)] Cons.prems(2) by simp
  show ?case using Cons.IH[OF 1] Cons.prems(2) by simp
qed

lemma ch_endDocument_rel:
  assumes "channel_writes_sim R sid A" "ch_rel R sid A h g"
  shows "ch_rel R sid A (ch_endDocument h) (ch_endDocument g)"
proof -
  have "channel_batch g = channel_batch h" using assms(2) unfolding ch_rel_def
    by (metis (no_types) channel_handler.select_convs(9) channel_handler.surjective channel_handler.update_convs(1))
  then show ?thesis using process_channel_batch_rel[OF assms] assms(2)
    by (simp add: ch_endDocument_def)
qed

subsection \<open>The passes and the statistics\<close>

lemma process_program_batch_rel:
  assumes "program_writes_sim R" "ph_rel R h g"
  shows "ph_rel R (process_program_batch h) (process_program_batch g)"
proof -
  obtain wg where g: "g = h\<lparr>ph_db := wg\<rparr>" using assms(2) unfolding ph_rel_def by blast
  have i: "idle_sim R (ph_db h) wg" using assms(2) g unfolding ph_rel_def by simp
  note f = flush_programs_idle_sim[OF assms(1) i, of "program_batch h"]
  show ?thesis using g i f by (simp add: process_program_batch_flush ph_rel_def)
qed

lemma ph_event_rel:
  assumes "program_writes_sim R" "ph_rel R h g"
  shows "ph_rel R (ph_event e h) (ph_event e g)"
proof -
  obtain wg where g: "g = h\<lparr>ph_db := wg\<rparr>" using assms(2) unfolding ph_rel_def by blast
  have i: "idle_sim R (ph_db h) wg" using assms(2) g unfolding ph_rel_def by simp
  show ?thesis
  proof (cases e)
    case (StartElement n a)
    then show ?thesis using g i by (simp add: ph_startElement_def ph_rel_def Let_def)
  next
    case (Characters c)
    then show ?thesis using g i by (simp add: ph_characters_def ph_rel_def)
  next
    case (EndElement n)
    let ?h2 = "h\<lparr>in_programme := False,
                 program_batch := program_batch h @ [current_program h],
                 program_count := program_count h + 1\<rparr>"
    consider (out) "\<not> in_programme h"
      | (accept) "in_programme h" "n = ''programme''" "p_title (current_program h) \<noteq> []"
      | (other) "in_programme h" "\<not> (n = ''programme'' \<and> p_title (current_program h) \<noteq> [])"
      by blast
    then show ?thesis
    proof cases
      case out
      then show ?thesis using EndElement assms(2) g by (simp add: ph_endElement_def)
    next
      case accept
      have r2: "ph_rel R ?h2 (?h2\<lparr>ph_db := wg\<rparr>)" using i by (simp add: ph_rel_def)
      have p2: "ph_rel R (process_program_batch ?h2) (process_program_batch (?h2\<lparr>ph_db := wg\<rparr>))"
        by (rule process_program_batch_rel[OF assms(1) r2])
      have eh: "ph_endElement n h =
          (if ph_batch_size h \<le> length (program_batch ?h2) then process_program_batch ?h2 else ?h2)"
        using accept by (simp add: ph_endElement_def Let_def)
      have eg: "ph_endElement n g =
          (if ph_batch_size h \<le> length (program_batch ?h2)
           then process_program_batch (?h2\<lparr>ph_db := wg\<rparr>) else ?h2\<lparr>ph_db := wg\<rparr>)"
      proof -
        have arg: "h\<lparr>ph_db := wg, in_programme := False,
                 program_batch := program_batch h @ [current_program h],
                 program_count := program_count h + 1\<rparr> = ?h2\<lparr>ph_db := wg\<rparr>"
          by simp
        show ?thesis using accept g by (simp add: ph_endElement_def Let_def arg)
      qed
      show ?thesis using EndElement eh eg r2 p2 by simp
    next
      case other
      have "ph_endElement n g = (ph_endElement n h)\<lparr>ph_db := wg\<rparr>"
        using other g by (auto simp: ph_endElement_def Let_def)
      moreover have "ph_db (ph_endElement n h) = ph_db h"
        using other by (auto simp: ph_endElement_def Let_def)
      ultimately show ?thesis using EndElement i by (simp add: ph_rel_def)
    qed
  qed
qed

lemma ph_fold_rel:
  assumes "program_writes_sim R"
  shows "ph_rel R h g \<Longrightarrow> ph_rel R (fold ph_event evs h) (fold ph_event evs g)"
proof (induction evs arbitrary: h g)
  case Nil then show ?case by simp
next
  case (Cons e evs)
  show ?case using Cons.IH[OF ph_event_rel[OF assms Cons.prems, of e]] by simp
qed

lemma ph_endDocument_rel:
  assumes "program_writes_sim R" "ph_rel R h g"
  shows "ph_rel R (ph_endDocument h) (ph_endDocument g)"
proof -
  obtain wg where g: "g = h\<lparr>ph_db := wg\<rparr>" using assms(2) unfolding ph_rel_def by blast
  then have "program_batch g = program_batch h" by simp
  then show ?thesis using process_program_batch_rel[OF assms] assms(2)
    by (simp add: ph_endDocument_def)
qed

lemma logger_idle_sim: "idle_sim R w v \<Longrightarrow> idle_sim R (logger_error e w) (logger_error e' v)"
  by (simp add: idle_sim_def logger_error_def)

lemma first_pass_rel:
  assumes "channel_writes_sim R (tp_source_id p) A"
      and "\<forall>e\<in>set (events (tp_file p)). opens_within A e"
      and "tp_rel R p q"
  shows "fst (first_pass p) = fst (first_pass q)
       \<and> tp_rel R (snd (first_pass p)) (snd (first_pass q))"
proof -
  obtain wq where q: "q = p\<lparr>tp_db := wq\<rparr>" using assms(3) unfolding tp_rel_def by blast
  have i: "idle_sim R (tp_db p) wq" using assms(3) q unfolding tp_rel_def by simp
  let ?h = "ChannelHandler (tp_db p) (tp_source_id p) (tp_source_name p)"
  let ?g = "ChannelHandler wq (tp_source_id p) (tp_source_name p)"
  have r0: "ch_rel R (tp_source_id p) A ?h ?g"
    using i by (simp add: ch_rel_def ch_inv_def ChannelHandler_def)
  note r1 = ch_fold_rel[OF assms(1) r0 assms(2)]
  note r2 = ch_endDocument_rel[OF assms(1) r1]
  obtain w1 where g1: "fold ch_event (events (tp_file p)) ?g
                        = (fold ch_event (events (tp_file p)) ?h)\<lparr>ch_db := w1\<rparr>"
    using r1 unfolding ch_rel_def by blast
  have i1: "idle_sim R (ch_db (fold ch_event (events (tp_file p)) ?h)) w1"
    using r1 g1 unfolding ch_rel_def by simp
  obtain w2 where g2: "ch_endDocument (fold ch_event (events (tp_file p)) ?g)
                        = (ch_endDocument (fold ch_event (events (tp_file p)) ?h))\<lparr>ch_db := w2\<rparr>"
    using r2 unfolding ch_rel_def by blast
  have i2: "idle_sim R (ch_db (ch_endDocument (fold ch_event (events (tp_file p)) ?h))) w2"
    using r2 g2 unfolding ch_rel_def by simp
  show ?thesis
    using q g1 i1 g2 i2 logger_idle_sim[OF i1, of FirstPassError FirstPassError]
    by (simp add: first_pass_def Let_def tp_rel_def)
qed

lemma second_pass_rel:
  assumes "program_writes_sim R" and "tp_rel R p q"
  shows "fst (second_pass p) = fst (second_pass q)
       \<and> tp_rel R (snd (second_pass p)) (snd (second_pass q))"
proof -
  obtain wq where q: "q = p\<lparr>tp_db := wq\<rparr>" using assms(2) unfolding tp_rel_def by blast
  have i: "idle_sim R (tp_db p) wq" using assms(2) q unfolding tp_rel_def by simp
  let ?h = "ProgramHandler (tp_db p) (tp_source_id p) (tp_source_name p) (tp_channel_ids p)"
  let ?g = "ProgramHandler wq (tp_source_id p) (tp_source_name p) (tp_channel_ids p)"
  have r0: "ph_rel R ?h ?g" using i by (simp add: ph_rel_def ProgramHandler_def)
  note r1 = ph_fold_rel[OF assms(1) r0, of "events (tp_file p)"]
  note r2 = ph_endDocument_rel[OF assms(1) r1]
  obtain w1 where g1: "fold ph_event (events (tp_file p)) ?g
                        = (fold ph_event (events (tp_file p)) ?h)\<lparr>ph_db := w1\<rparr>"
    using r1 unfolding ph_rel_def by blast
  have i1: "idle_sim R (ph_db (fold ph_event (events (tp_file p)) ?h)) w1"
    using r1 g1 unfolding ph_rel_def by simp
  obtain w2 where g2: "ph_endDocument (fold ph_event (events (tp_file p)) ?g)
                        = (ph_endDocument (fold ph_event (events (tp_file p)) ?h))\<lparr>ph_db := w2\<rparr>"
    using r2 unfolding ph_rel_def by blast
  have i2: "idle_sim R (ph_db (ph_endDocument (fold ph_event (events (tp_file p)) ?h))) w2"
    using r2 g2 unfolding ph_rel_def by simp
  show ?thesis
    using q g1 i1 g2 i2 logger_idle_sim[OF i1, of SecondPassError SecondPassError]
    by (simp add: second_pass_def Let_def tp_rel_def)
qed

lemma update_statistics_rel:
  assumes "statistics_sim R (tp_source_id p) t1 t2" and "tp_rel R p q"
  shows "tp_rel R (update_statistics t1 p) (update_statistics t2 q)"
proof -
  obtain wq where q: "q = p\<lparr>tp_db := wq\<rparr>" using assms(2) unfolding tp_rel_def by blast
  have i: "idle_sim R (tp_db p) wq" using assms(2) q unfolding tp_rel_def by simp
  let ?f = "update_source_statistics (tp_channel_count p) (tp_program_count p) t1 (tp_source_id p)"
  let ?g = "update_source_statistics (tp_channel_count p) (tp_program_count p) t2 (tp_source_id p)"
  have ss: "statement_sim R ?f ?g" using assms(1) unfolding statistics_sim_def by blast
  obtain r1 w1 where e1: "execute ?f (tp_db p) = (r1, w1)" by (cases "execute ?f (tp_db p)")
  obtain r1' v1 where e1': "execute ?g wq = (r1', v1)" by (cases "execute ?g wq")
  have s1: "r1 = r1'" "world_sim R w1 v1"
    using execute_sim[OF ss idle_world_sim[OF i]] e1 e1' by simp_all
  have f1: "faults w1 = []" "faults v1 = []"
    using execute_faults[of "tp_db p" ?f] execute_faults[of wq ?g] i e1 e1'
    by (simp_all add: idle_sim_def)
  have n1: "snapshot w1 \<noteq> None" "snapshot v1 \<noteq> None"
    using e1 e1' by (auto simp: execute_def Let_def split: sum.splits option.splits if_splits)
  have c: "commit w1 = (None, w1\<lparr>snapshot := None, faults := []\<rparr>)"
          "commit v1 = (None, v1\<lparr>snapshot := None, faults := []\<rparr>)"
    using f1 by (simp_all add: commit_def next_fault_def)
  have ok: "idle_sim R (w1\<lparr>snapshot := None, faults := []\<rparr>) (v1\<lparr>snapshot := None, faults := []\<rparr>)"
    using s1(2) f1 by (simp add: idle_sim_def world_sim_def)
  have rb: "\<And>e e'. idle_sim R (rollback (logger_error e w1)) (rollback (logger_error e' v1))"
    using rollback_sim[OF logger_sim[OF s1(2)]] f1 n1
    by (auto simp: idle_sim_def world_sim_def rollback_def logger_error_def split: option.splits)
  show ?thesis
  proof (cases r1)
    case None
    then show ?thesis using q e1 e1' s1(1) c ok
      by (simp add: update_statistics_def tp_rel_def)
  next
    case (Some e)
    then show ?thesis using q e1 e1' s1(1) rb[of "StatisticsError e" "StatisticsError e"]
      by (simp add: update_statistics_def tp_rel_def)
  qed
qed

lemma parse_rel:
  assumes "channel_writes_sim R (tp_source_id p) A"
      and "\<forall>e\<in>set (events (tp_file p)). opens_within A e"
      and "program_writes_sim R"
      and "statistics_sim R (tp_source_id p) t1 t2"
      and "tp_rel R p q"
  shows "tp_rel R (snd (parse t1 p)) (snd (parse t2 q))"
proof -
  note a = first_pass_rel[OF assms(1,2,5)]
  then have a': "tp_rel R (snd (first_pass p)) (snd (first_pass q))" by simp
  note b = second_pass_rel[OF assms(3) a']
  then have b': "tp_rel R (snd (second_pass (snd (first_pass p)))) (snd (second_pass (snd (first_pass q))))"
    by simp
  have sid: "tp_source_id (snd (second_pass (snd (first_pass p)))) = tp_source_id p"
    by (simp add: first_pass_def second_pass_def Let_def)
  show ?thesis
    using update_statistics_rel[OF _ b', of t1 t2] assms(4) sid
    by (simp add: parse_def Let_def)
qed

section \<open>The statistics of a source\<close>

subsection \<open>One run as a diagonal of the lockstep relation\<close>

lemma diagonal_statement_sim:
  assumes "\<And>s s'. P s \<Longrightarrow> f s = Inr s' \<Longrightarrow> P s'"
  shows "statement_sim (\<lambda>s t. s = t \<and> P s) f f"
  unfolding statement_sim_def using assms by (auto split: sum.splits)

lemma diagonal_tp_rel:
  "tp_rel (\<lambda>s t. s = t \<and> P s) p q \<Longrightarrow>
   faults (tp_db p) = [] \<and> snapshot (tp_db p) = None \<and> P (store (tp_db p))"
  by (auto simp: tp_rel_def idle_sim_def)

lemma diagonal_tp_rel_refl:
  "faults (tp_db p) = [] \<Longrightarrow> snapshot (tp_db p) = None \<Longrightarrow> P (store (tp_db p)) \<Longrightarrow>
   tp_rel (\<lambda>s t. s = t \<and> P s) p p"
  by (simp add: tp_rel_def idle_sim_def)

lemma opens_within_UNIV: "opens_within UNIV e"
  by (cases e) simp_all

lemma passes_keep_sources:
  assumes "faults (tp_db p) = []" "snapshot (tp_db p) = None"
  shows "faults (tp_db (snd (second_pass (snd (first_pass p))))) = []
       \<and> snapshot (tp_db (snd (second_pass (snd (first_pass p))))) = None
       \<and> sources (store (tp_db (snd (second_pass (snd (first_pass p))))))
           = sources (store (tp_db p))"
proof -
  let ?R = "\<lambda>s t. s = t \<and> sources s = sources (store (tp_db p))"
  have cw: "channel_writes_sim ?R (tp_source_id p) UNIV"
    unfolding channel_writes_sim_def
    by (intro allI impI conjI diagonal_statement_sim)
       (auto simp: insert_channel_def update_channel_def split: if_splits)
  have pw: "program_writes_sim ?R"
    unfolding program_writes_sim_def
    by (intro allI diagonal_statement_sim)
       (auto simp: insert_or_replace_program_def split: if_splits)
  have r0: "tp_rel ?R p p" using assms by (simp add: diagonal_tp_rel_refl)
  have ev: "\<forall>e\<in>set (events (tp_file p)). opens_within UNIV e" by (simp add: opens_within_UNIV)
  have r1: "tp_rel ?R (snd (first_pass p)) (snd (first_pass p))"
    using first_pass_rel[OF cw ev r0] by simp
  have r2: "tp_rel ?R (snd (second_pass (snd (first_pass p)))) (snd (second_pass (snd (first_pass p))))"
    using second_pass_rel[OF pw r1] by simp
  show ?thesis using diagonal_tp_rel[OF r2] by simp
qed

text \<open>
  C9 has four aggregate fields written into the source record.  The source row has no
  column for the skipped count, and the \<^verbatim>\<open>UPDATE\<close> sets three columns.  Two feeds
  that differ in the skipped count (0 and 1) leave the same source row: name, url and
  file path as before, channel count 1, program count 1 and the time given.
\<close>

theorem skipped_count_is_not_stored:
  "tp_skipped_programs (snd (parse ''2024-05-01T10:00:00''
      (TwoPassEPGParser (XmlStream demo_feed True)
         (idle_world (demo_store\<lparr>channels := Map.empty\<rparr>)) ''src'' ''guide.xml''))) = 0
   \<and> tp_skipped_programs (snd (parse ''2024-05-01T10:00:00''
      (TwoPassEPGParser (XmlStream demo_feed_unknown True)
         (idle_world (demo_store\<lparr>channels := Map.empty\<rparr>)) ''src'' ''guide.xml''))) = 1
   \<and> sources (store (tp_db (snd (parse ''2024-05-01T10:00:00''
      (TwoPassEPGParser (XmlStream demo_feed True)
         (idle_world (demo_store\<lparr>channels := Map.empty\<rparr>)) ''src'' ''guide.xml''))))) ''src''
       = Some \<lparr>s_name = ''guide.xml'', s_url = Some ''guide.xml'', s_file_path = None,
               s_channel_count = 1, s_program_count = 1,
               s_last_updated = ''2024-05-01T10:00:00''\<rparr>
   \<and> sources (store (tp_db (snd (parse ''2024-05-01T10:00:00''
      (TwoPassEPGParser (XmlStream demo_feed_unknown True)
         (idle_world (demo_store\<lparr>channels := Map.empty\<rparr>)) ''src'' ''guide.xml''))))) ''src''
       = Some \<lparr>s_name = ''guide.xml'', s_url = Some ''guide.xml'', s_file_path = None,
               s_channel_count = 1, s_program_count = 1,
               s_last_updated = ''2024-05-01T10:00:00''\<rparr>"
  by (simp add: parser_defs handler_defs store_defs demo_defs demo_feed_unknown_def Let_def
        cong: prod.case_cong_weak let_weak_cong)

text \<open>
  C9, amended: after both passes (whether they completed or not), on a connection without
  faults that holds the row of the source, \<^verbatim>\<open>parse\<close> writes exactly three fields of
  that row: the channel count of the first pass, the program count of the second pass,
  and as last-updated value the time \<open>current_time\<close> that the application passes
  explicitly (not the store's \<^verbatim>\<open>CURRENT_TIMESTAMP\<close>).  The other fields of the row and
  the rows of other sources are unchanged; the skipped count is not stored.
\<close>

theorem statistics_written_with_explicit_time:
  assumes "faults (tp_db p) = []" and "snapshot (tp_db p) = None"
      and "sources (store (tp_db p)) (tp_source_id p) = Some r"
  shows "sources (store (tp_db (snd (parse current_time p))))
           = (sources (store (tp_db p)))(tp_source_id p \<mapsto>
                r\<lparr>s_channel_count := tp_channel_count (snd (parse current_time p)),
                  s_program_count := tp_program_count (snd (parse current_time p)),
                  s_last_updated := current_time\<rparr>)
       \<and> tp_channel_count (snd (parse current_time p))
           = tp_channel_count (snd (first_pass p))
       \<and> tp_program_count (snd (parse current_time p))
           = tp_program_count (snd (second_pass (snd (first_pass p))))"
proof -
  let ?p2 = "snd (second_pass (snd (first_pass p)))"
  note k = passes_keep_sources[OF assms(1,2)]
  have sid: "tp_source_id ?p2 = tp_source_id p"
    by (simp add: first_pass_def second_pass_def Let_def)
  have cc: "tp_channel_count ?p2 = tp_channel_count (snd (first_pass p))"
    by (simp add: second_pass_def Let_def)
  have nf: "\<not> next_fault (tp_db ?p2)" using k by (simp add: next_fault_def)
  have u: "update_statistics current_time ?p2 =
      ?p2\<lparr>tp_db := (tp_db ?p2)\<lparr>store := (store (tp_db ?p2))\<lparr>sources :=
          (sources (store (tp_db p)))(tp_source_id p \<mapsto>
                r\<lparr>s_channel_count := tp_channel_count ?p2,
                  s_program_count := tp_program_count ?p2,
                  s_last_updated := current_time\<rparr>)\<rparr>\<rparr>\<rparr>"
    using k sid assms(3) nf
    by (cases "tp_db ?p2")
       (simp add: update_statistics_def execute_def commit_def next_fault_def
          update_source_statistics_def Let_def)
  show ?thesis using u cc by (simp add: parse_def Let_def)
qed

theorem statistics_written_with_explicit_time_witness:
  "sources (store (tp_db (snd (parse ''2024-05-01T10:00:00''
      (TwoPassEPGParser (XmlStream demo_feed True)
         (idle_world (demo_store\<lparr>channels := Map.empty\<rparr>)) ''src'' ''guide.xml'')))))
     = [''src'' \<mapsto> demo_source\<lparr>s_channel_count := 1, s_program_count := 1,
                                  s_last_updated := ''2024-05-01T10:00:00''\<rparr>]"
proof -
  let ?p = "TwoPassEPGParser (XmlStream demo_feed True)
         (idle_world (demo_store\<lparr>channels := Map.empty\<rparr>)) ''src'' ''guide.xml''"
  have 1: "faults (tp_db ?p) = []" "snapshot (tp_db ?p) = None"
    by (simp_all add: TwoPassEPGParser_def idle_world_def)
  have 2: "sources (store (tp_db ?p)) (tp_source_id ?p) = Some demo_source"
    by (simp add: TwoPassEPGParser_def idle_world_def demo_store_def)
  have 3: "tp_channel_count (snd (parse ''2024-05-01T10:00:00'' ?p)) = 1"
          "tp_program_count (snd (parse ''2024-05-01T10:00:00'' ?p)) = 1"
    by (simp_all add: parser_defs handler_defs store_defs demo_defs Let_def
          cong: prod.case_cong_weak let_weak_cong)
  have 4: "sources (store (tp_db ?p)) = [''src'' \<mapsto> demo_source]" "tp_source_id ?p = ''src''"
    by (simp_all add: TwoPassEPGParser_def idle_world_def demo_store_def)
  show ?thesis
    using statistics_written_with_explicit_time[OF 1 2, of "''2024-05-01T10:00:00''"]
    unfolding 3 4 by simp
qed

section \<open>Repeated channel declarations and icons\<close>

subsection \<open>The channel pass when no flush fails\<close>

lemma upsert_all_append: "upsert_all (cs @ [c]) m = (upsert_all cs m)(c_id c \<mapsto> c)"
  by (simp add: upsert_all_def)

lemma write_channels_ready:
  assumes "sid \<in> dom (sources (store w))" "faults w = []" "snapshot w = Some s0"
      and "\<forall>c\<in>set cs. c_source_id c = sid"
  shows "write_channels cs w =
           (None, w\<lparr>store := (store w)\<lparr>channels := upsert_all cs (channels (store w))\<rparr>\<rparr>)"
  using assms
proof (induction cs arbitrary: w)
  case Nil
  then show ?case by (simp add: upsert_all_def)
next
  case (Cons c cs)
  let ?w' = "w\<lparr>store := (store w)\<lparr>channels := (channels (store w))(c_id c \<mapsto> c)\<rparr>\<rparr>"
  have src: "c_source_id c \<in> dom (sources (store w))" using Cons.prems(1,4) by simp
  have nf: "\<not> next_fault w" using Cons.prems(2) by (simp add: next_fault_def)
  have same: "w\<lparr>snapshot := Some s0, faults := []\<rparr> = w"
    using Cons.prems(2,3) by (cases w) simp
  have step: "(case execute (insert_channel c) w of
        (None, w1) \<Rightarrow> write_channels cs w1
      | (Some IntegrityError, w1) \<Rightarrow>
          (case execute (update_channel c) w1 of
             (None, w2) \<Rightarrow> write_channels cs w2
           | (Some e, w2) \<Rightarrow> (Some e, w2))
      | (Some OperationalError, w1) \<Rightarrow> (Some OperationalError, w1)) = write_channels cs ?w'"
  proof (cases "c_id c \<in> dom (channels (store w))")
    case True
    have 1: "execute (insert_channel c) w = (Some IntegrityError, w)"
      using True nf Cons.prems(2,3) same
      by (simp add: execute_def insert_channel_def Let_def)
    have 2: "execute (update_channel c) w = (None, ?w')"
      using True src nf Cons.prems(2,3) same
      by (simp add: execute_def update_channel_def Let_def)
    show ?thesis by (simp add: 1 2)
  next
    case False
    have 1: "execute (insert_channel c) w = (None, ?w')"
      using False src nf Cons.prems(2,3) same
      by (simp add: execute_def insert_channel_def Let_def)
    show ?thesis by (simp add: 1)
  qed
  have ih: "write_channels cs ?w' =
      (None, ?w'\<lparr>store := (store ?w')\<lparr>channels := upsert_all cs (channels (store ?w'))\<rparr>\<rparr>)"
  proof -
    have a: "sid \<in> dom (sources (store ?w'))" "faults ?w' = []" "snapshot ?w' = Some s0"
      using Cons.prems(1,2,3) by simp_all
    have b: "\<forall>c\<in>set cs. c_source_id c = sid" using Cons.prems(4) by simp
    show ?thesis by (rule Cons.IH[OF a b])
  qed
  have fin: "?w'\<lparr>store := (store ?w')\<lparr>channels := upsert_all cs (channels (store ?w'))\<rparr>\<rparr>
       = w\<lparr>store := (store w)\<lparr>channels := upsert_all (c # cs) (channels (store w))\<rparr>\<rparr>"
    by (simp add: upsert_all_def)
  show ?case using step ih unfolding fin by simp
qed

lemma flush_channels_ready:
  assumes "sid \<in> dom (sources (store w))" "faults w = []" "snapshot w = None"
      and "\<forall>c\<in>set cs. c_source_id c = sid"
  shows "flush_channels cs w =
           w\<lparr>store := (store w)\<lparr>channels := upsert_all cs (channels (store w))\<rparr>\<rparr>"
proof -
  let ?w0 = "w\<lparr>snapshot := Some (store w)\<rparr>"
  have b: "begin_transaction w = (None, ?w0)" using assms(3) by (simp add: begin_transaction_def)
  have x: "write_channels cs ?w0 =
      (None, ?w0\<lparr>store := (store ?w0)\<lparr>channels := upsert_all cs (channels (store ?w0))\<rparr>\<rparr>)"
    using write_channels_ready[of sid ?w0 "store w" cs] assms by simp
  show ?thesis using b x assms(2,3)
    by (cases w) (simp add: flush_channels_def channel_transaction_def commit_def next_fault_def)
qed

lemma ch_event_ready:
  assumes "ch_ready sid h"
  shows "ch_ready sid (ch_event e h)
       \<and> channel_view (ch_event e h) =
           (if e = EndElement ''channel'' \<and> in_channel h \<and> c_id (current_channel h) \<noteq> []
            then (channel_view h)(c_id (current_channel h) \<mapsto> current_channel h)
            else channel_view h)"
proof (cases e)
  case (StartElement n a)
  then show ?thesis using assms
    by (simp add: ch_startElement_def ch_ready_def ch_inv_def channel_ok_def channel_view_def Let_def)
next
  case (Characters c)
  then show ?thesis using assms
    by (simp add: ch_characters_def ch_ready_def ch_inv_def channel_view_def)
next
  case (EndElement n)
  let ?h2 = "h\<lparr>in_channel := False,
               channel_batch := channel_batch h @ [current_channel h],
               ch_channel_ids := insert (c_id (current_channel h)) (ch_channel_ids h),
               channel_count := channel_count h + 1\<rparr>"
  consider (accept) "in_channel h" "n = ''channel''" "c_id (current_channel h) \<noteq> []"
    | (other) "\<not> (in_channel h \<and> n = ''channel'' \<and> c_id (current_channel h) \<noteq> [])"
    by blast
  then show ?thesis
  proof cases
    case accept
    have r2: "ch_ready sid ?h2" using assms accept
      by (simp add: ch_ready_def ch_inv_def)
    have v2: "channel_view ?h2 = (channel_view h)(c_id (current_channel h) \<mapsto> current_channel h)"
      by (simp add: channel_view_def upsert_all_append)
    have ok: "\<forall>c\<in>set (channel_batch ?h2). c_source_id c = sid"
      using r2 by (simp add: ch_ready_def ch_inv_def channel_ok_def)
    have fl: "flush_channels (channel_batch ?h2) (ch_db ?h2) =
         (ch_db h)\<lparr>store := (store (ch_db h))\<lparr>channels := channel_view ?h2\<rparr>\<rparr>"
      using flush_channels_ready[of sid "ch_db ?h2" "channel_batch ?h2"] r2 ok
      by (simp add: ch_ready_def channel_view_def)
    have p: "ch_ready sid (process_channel_batch ?h2)
             \<and> channel_view (process_channel_batch ?h2) = channel_view ?h2"
      using r2 fl
      by (simp add: process_channel_batch_flush ch_ready_def ch_inv_def channel_view_def upsert_all_def)
    have eh: "ch_endElement n h =
          (if ch_batch_size h \<le> length (channel_batch ?h2) then process_channel_batch ?h2 else ?h2)"
      using accept by (simp add: ch_endElement_def Let_def)
    show ?thesis using EndElement accept eh r2 v2 p by simp
  next
    case other
    have "ch_db (ch_endElement n h) = ch_db h" "channel_batch (ch_endElement n h) = channel_batch h"
         "ch_inv sid UNIV (ch_endElement n h)"
      using other assms
      by (auto simp: ch_endElement_def Let_def ch_ready_def ch_inv_def channel_ok_def)
    then show ?thesis using EndElement other assms
      by (auto simp: ch_ready_def channel_view_def)
  qed
qed

lemma ch_fold_ready:
  "ch_ready sid h \<Longrightarrow> ch_ready sid (fold ch_event evs h)"
proof (induction evs arbitrary: h)
  case Nil then show ?case by simp
next
  case (Cons e evs)
  show ?case using Cons.IH[of "ch_event e h"] ch_event_ready[OF Cons.prems, of e] by simp
qed

lemma ch_event_current_id:
  assumes "in_channel h \<longrightarrow> c_id (current_channel h) \<noteq> i" "\<not> opens_channel i e"
  shows "in_channel (ch_event e h) \<longrightarrow> c_id (current_channel (ch_event e h)) \<noteq> i"
proof (cases e)
  case (StartElement n a)
  then show ?thesis using assms by (auto simp: ch_startElement_def Let_def)
next
  case (Characters c)
  then show ?thesis using assms by (simp add: ch_characters_def)
next
  case (EndElement n)
  have "in_channel (ch_endElement n h) \<Longrightarrow>
        in_channel h \<and> c_id (current_channel (ch_endElement n h)) = c_id (current_channel h)"
    by (auto simp: ch_endElement_def Let_def process_channel_batch_flush split: if_splits)
  then show ?thesis using EndElement assms by auto
qed

lemma view_kept:
  "ch_ready sid h \<Longrightarrow> in_channel h \<longrightarrow> c_id (current_channel h) \<noteq> i \<Longrightarrow>
   \<forall>e\<in>set evs. \<not> opens_channel i e \<Longrightarrow>
   channel_view (fold ch_event evs h) i = channel_view h i"
proof (induction evs arbitrary: h)
  case Nil then show ?case by simp
next
  case (Cons e evs)
  have ne: "\<not> opens_channel i e" and rest: "\<forall>e\<in>set evs. \<not> opens_channel i e"
    using Cons.prems(3) by simp_all
  note s = ch_event_ready[OF Cons.prems(1), of e]
  have v: "channel_view (ch_event e h) i = channel_view h i"
    using s Cons.prems(2) by auto
  have c: "in_channel (ch_event e h) \<longrightarrow> c_id (current_channel (ch_event e h)) \<noteq> i"
    by (rule ch_event_current_id[OF Cons.prems(2) ne])
  show ?case using Cons.IH[of "ch_event e h"] s v c rest by simp
qed

lemma ch_endDocument_ready:
  assumes "ch_ready sid h"
  shows "channels (store (ch_db (ch_endDocument h))) = channel_view h"
proof -
  have ok: "\<forall>c\<in>set (channel_batch h). c_source_id c = sid"
    using assms by (simp add: ch_ready_def ch_inv_def channel_ok_def)
  have fl: "flush_channels (channel_batch h) (ch_db h) =
         (ch_db h)\<lparr>store := (store (ch_db h))\<lparr>channels := channel_view h\<rparr>\<rparr>"
    using flush_channels_ready[of sid "ch_db h" "channel_batch h"] assms ok
    by (simp add: ch_ready_def channel_view_def)
  show ?thesis using fl
    by (simp add: ch_endDocument_def process_channel_batch_flush channel_view_def upsert_all_def)
qed

lemma icon_kept_event:
  assumes "c_icon (current_channel h) = Some ic" "ic \<noteq> []" "\<not> is_channel_open e"
  shows "c_icon (current_channel (ch_event e h)) = Some ic"
proof (cases e)
  case (StartElement n a)
  then show ?thesis using assms by (simp add: ch_startElement_def Let_def)
next
  case (Characters c)
  then show ?thesis using assms by (simp add: ch_characters_def)
next
  case (EndElement n)
  then show ?thesis using assms
    by (simp add: ch_endElement_def Let_def process_channel_batch_flush)
qed

lemma icon_kept:
  "c_icon (current_channel h) = Some ic \<Longrightarrow> ic \<noteq> [] \<Longrightarrow> \<forall>e\<in>set body. \<not> is_channel_open e \<Longrightarrow>
   c_icon (current_channel (fold ch_event body h)) = Some ic"
proof (induction body arbitrary: h)
  case Nil then show ?case by simp
next
  case (Cons e body)
  have 1: "c_icon (current_channel (ch_event e h)) = Some ic"
    using icon_kept_event[OF Cons.prems(1,2)] Cons.prems(3) by simp
  show ?case using Cons.IH[OF 1 Cons.prems(2)] Cons.prems(3) by simp
qed

text \<open>
  C8 has the first non-empty icon of a channel element win.  The handler takes the text
  of an \<^verbatim>\<open>icon\<close> element only when it contains \<^verbatim>\<open>@src\<close>: a first icon with the text
  \<^verbatim>\<open>logo1.png\<close> is passed over and the second one wins, and an icon given by a
  \<^verbatim>\<open>src\<close> attribute alone leaves the icon unset.
\<close>

theorem first_nonempty_icon_does_not_win:
  "c_icon (current_channel (fold ch_event
      [StartElement ''channel'' [(''id'', ''c1'')],
       StartElement ''icon'' [], Characters ''logo1.png'', EndElement ''icon'',
       StartElement ''icon'' [], Characters ''@src=logo2.png'', EndElement ''icon'']
      (ChannelHandler (idle_world demo_store) ''src'' ''guide.xml''))) = Some ''@src=logo2.png''
   \<and> c_icon (current_channel (fold ch_event
      [StartElement ''channel'' [(''id'', ''c1'')],
       StartElement ''icon'' [(''src'', ''http://example.org/logo.png'')], EndElement ''icon'']
      (ChannelHandler (idle_world demo_store) ''src'' ''guide.xml''))) = None"
  by (simp add: handler_defs starts_with_def Let_def)

text \<open>
  C8, amended: when no flush fails, the row stored for a channel id is the record of the
  last \<^verbatim>\<open>channel\<close> element with that id, as it stands at its closing tag (name, icon and
  owner: last write wins); its name is the trimmed text of the last \<^verbatim>\<open>display-name\<close>
  closed inside it.  Inside a channel element an \<^verbatim>\<open>icon\<close> closing tag sets the icon only
  if none is set yet and the text read contains \<^verbatim>\<open>@src\<close>; once set to a non-empty text
  the icon is kept until the next \<^verbatim>\<open>channel\<close> opening tag, so the first such icon wins.
\<close>

theorem later_channel_block_wins:
  assumes "ch_ready sid h" and "in_channel h" and "c_id (current_channel h) \<noteq> []"
      and "\<forall>e\<in>set rest. \<not> opens_channel (c_id (current_channel h)) e"
  shows "channels (store (ch_db (ch_endDocument (fold ch_event (EndElement ''channel'' # rest) h))))
           (c_id (current_channel h)) = Some (current_channel h)
       \<and> c_name (current_channel (ch_endElement ''display-name'' h)) = strip (ch_buffer h)
       \<and> c_icon (current_channel (ch_endElement ''icon'' h)) =
           (if (c_icon (current_channel h) = None \<or> c_icon (current_channel h) = Some [])
               \<and> contains ''@src'' (ch_buffer h)
            then Some (strip (ch_buffer h)) else c_icon (current_channel h))
       \<and> (\<forall>ic body. c_icon (current_channel h) = Some ic \<longrightarrow> ic \<noteq> [] \<longrightarrow>
             (\<forall>e\<in>set body. \<not> is_channel_open e) \<longrightarrow>
             c_icon (current_channel (fold ch_event body h)) = Some ic)"
proof -
  let ?i = "c_id (current_channel h)"
  let ?h1 = "ch_event (EndElement ''channel'') h"
  have s: "ch_ready sid ?h1" "channel_view ?h1 = (channel_view h)(?i \<mapsto> current_channel h)"
    using ch_event_ready[OF assms(1), of "EndElement ''channel''"] assms(2,3) by simp_all
  have out: "\<not> in_channel ?h1"
    using assms(2) by (simp add: ch_endElement_def Let_def process_channel_batch_flush)
  have k: "channel_view (fold ch_event rest ?h1) ?i = channel_view ?h1 ?i"
    using view_kept[OF s(1) _ assms(4)] out by simp
  have d: "channels (store (ch_db (ch_endDocument (fold ch_event rest ?h1))))
             = channel_view (fold ch_event rest ?h1)"
    by (rule ch_endDocument_ready[OF ch_fold_ready[OF s(1)]])
  have a: "channels (store (ch_db (ch_endDocument (fold ch_event (EndElement ''channel'' # rest) h))))
           ?i = Some (current_channel h)"
    using d k s(2) by simp
  have b: "c_name (current_channel (ch_endElement ''display-name'' h)) = strip (ch_buffer h)"
    using assms(2) by (simp add: ch_endElement_def)
  have c: "c_icon (current_channel (ch_endElement ''icon'' h)) =
           (if (c_icon (current_channel h) = None \<or> c_icon (current_channel h) = Some [])
               \<and> contains ''@src'' (ch_buffer h)
            then Some (strip (ch_buffer h)) else c_icon (current_channel h))"
    using assms(2) by (simp add: ch_endElement_def)
  have e: "\<forall>ic body. c_icon (current_channel h) = Some ic \<longrightarrow> ic \<noteq> [] \<longrightarrow>
             (\<forall>e\<in>set body. \<not> is_channel_open e) \<longrightarrow>
             c_icon (current_channel (fold ch_event body h)) = Some ic"
    using icon_kept by blast
  show ?thesis using a b c e by blast
qed

theorem later_channel_block_wins_witness:
  "channels (store (ch_db (ch_endDocument (fold ch_event
      (two_block_prefix @ [EndElement ''channel'', EndElement ''tv''])
      (ChannelHandler (idle_world (demo_store\<lparr>channels := Map.empty\<rparr>)) ''src'' ''guide.xml'')))))
     ''c1''
   = Some \<lparr>c_id = ''c1'', c_source_id = ''src'', c_name = ''New name'', c_icon = None\<rparr>"
proof -
  let ?init = "ChannelHandler (idle_world (demo_store\<lparr>channels := Map.empty\<rparr>)) ''src'' ''guide.xml''"
  let ?h = "fold ch_event two_block_prefix ?init"
  have r0: "ch_ready ''src'' ?init"
    by (simp add: ch_ready_def ch_inv_def ChannelHandler_def idle_world_def demo_store_def)
  have r: "ch_ready ''src'' ?h" by (rule ch_fold_ready[OF r0])
  have cur: "in_channel ?h"
    "current_channel ?h = \<lparr>c_id = ''c1'', c_source_id = ''src'', c_name = ''New name'', c_icon = None\<rparr>"
    by (simp_all add: handler_defs two_block_prefix_def Let_def)
  have id: "c_id (current_channel ?h) \<noteq> []" using cur(2) by simp
  have rest: "\<forall>e\<in>set [EndElement ''tv'']. \<not> opens_channel (c_id (current_channel ?h)) e" by simp
  show ?thesis
    using later_channel_block_wins[OF r cur(1) id rest] cur(2) by simp
qed

section \<open>Processing the same feed twice\<close>

subsection \<open>What a run changes, and two runs side by side\<close>

lemma opens_within_declared: "e \<in> set evs \<Longrightarrow> opens_within (declared_ids evs) e"
proof (induction evs rule: declared_ids.induct)
  case 1 then show ?case by simp
next
  case (2 n a es)
  then show ?case by (cases e) auto
next
  case (3 c es)
  then show ?case by (cases e) auto
next
  case (4 n es)
  then show ?case by (cases e) auto
qed

lemma cascade_channels:
  "sid \<in> dom (sources s) \<Longrightarrow>
   channels (without_source sid s) k =
     (case channels s k of None \<Rightarrow> None
      | Some c \<Rightarrow> if c_source_id c = sid then None else Some c)"
  by (auto simp: without_source_def delete_source_def split: option.splits)

lemma cascade_programs:
  "sid \<in> dom (sources s) \<Longrightarrow>
   programs (without_source sid s) k =
     (case programs s k of None \<Rightarrow> None
      | Some p \<Rightarrow> (case channels s (p_channel_id p) of None \<Rightarrow> Some p
                   | Some c \<Rightarrow> if c_source_id c = sid then None else Some p))"
  by (auto simp: without_source_def delete_source_def split: option.splits)

lemma without_source_absent:
  "sid \<notin> dom (sources s) \<Longrightarrow> without_source sid s = s"
  by (auto simp: without_source_def delete_source_def split: option.splits)

lemma touched_only_channel:
  "touched_only sid A x s \<Longrightarrow> channel_ok sid A c \<Longrightarrow>
   touched_only sid A x (s\<lparr>channels := (channels s)(c_id c \<mapsto> c)\<rparr>)"
  by (simp add: touched_only_def channel_ok_def)

lemma touched_only_writes:
  "channel_writes_sim (\<lambda>s t. s = t \<and> touched_only sid A x s) sid A"
  "program_writes_sim (\<lambda>s t. s = t \<and> touched_only sid A x s)"
  "statistics_sim (\<lambda>s t. s = t \<and> touched_only sid A x s) sid t1 t1"
proof -
  have i: "\<And>c s s'. channel_ok sid A c \<Longrightarrow> touched_only sid A x s \<Longrightarrow>
             insert_channel c s = Inr s' \<Longrightarrow> touched_only sid A x s'"
    using touched_only_channel by (auto simp: insert_channel_def split: if_splits)
  have u: "\<And>c s s'. channel_ok sid A c \<Longrightarrow> touched_only sid A x s \<Longrightarrow>
             update_channel c s = Inr s' \<Longrightarrow> touched_only sid A x s'"
    using touched_only_channel by (auto simp: update_channel_def split: if_splits)
  show "channel_writes_sim (\<lambda>s t. s = t \<and> touched_only sid A x s) sid A"
    unfolding channel_writes_sim_def
    using i u by (intro allI impI conjI diagonal_statement_sim) blast+
  have p: "\<And>p s s'. touched_only sid A x s \<Longrightarrow>
             insert_or_replace_program p s = Inr s' \<Longrightarrow> touched_only sid A x s'"
  proof -
    fix p s s'
    assume a: "touched_only sid A x s" "insert_or_replace_program p s = Inr s'"
    have "s' = s\<lparr>programs := (programs s)(p_id p \<mapsto> p)\<rparr>"
      using a(2) by (auto simp: insert_or_replace_program_def split: if_splits)
    then show "touched_only sid A x s'" using a(1) by (simp add: touched_only_def)
  qed
  show "program_writes_sim (\<lambda>s t. s = t \<and> touched_only sid A x s)"
    unfolding program_writes_sim_def
    using p by (intro allI diagonal_statement_sim) blast
  have st: "\<And>cc pc s s'. touched_only sid A x s \<Longrightarrow>
             update_source_statistics cc pc t1 sid s = Inr s' \<Longrightarrow> touched_only sid A x s'"
  proof -
    fix cc pc s s'
    assume a: "touched_only sid A x s" "update_source_statistics cc pc t1 sid s = Inr s'"
    show "touched_only sid A x s'"
    proof (cases "sources s sid")
      case None
      then show ?thesis using a by (simp add: update_source_statistics_def)
    next
      case (Some r)
      then have s': "s' = s\<lparr>sources := (sources s)(sid \<mapsto>
                  r\<lparr>s_channel_count := cc, s_program_count := pc, s_last_updated := t1\<rparr>)\<rparr>"
        using a(2) by (simp add: update_source_statistics_def)
      have "sid \<in> dom (sources s)" using Some by blast
      then have "dom (sources s') = dom (sources s)" "channels s' = channels s"
        unfolding s' by (simp_all add: insert_absorb)
      then show ?thesis using a(1) by (simp add: touched_only_def)
    qed
  qed
  show "statistics_sim (\<lambda>s t. s = t \<and> touched_only sid A x s) sid t1 t1"
    unfolding statistics_sim_def
    using st by (intro allI diagonal_statement_sim) blast
qed

lemma rerun_rel_writes:
  "channel_writes_sim (rerun_rel x y) sid UNIV"
  "program_writes_sim (rerun_rel x y)"
  "statistics_sim (rerun_rel x y) sid t1 t2"
proof -
  show "channel_writes_sim (rerun_rel x y) sid UNIV"
    unfolding channel_writes_sim_def statement_sim_def
    by (auto simp: insert_channel_def update_channel_def rerun_rel_def split: if_splits sum.splits)
  show "program_writes_sim (rerun_rel x y)"
    unfolding program_writes_sim_def statement_sim_def
    by (auto simp: insert_or_replace_program_def rerun_rel_def split: if_splits sum.splits)
  show "statistics_sim (rerun_rel x y) sid t1 t2"
    unfolding statistics_sim_def statement_sim_def
    by (auto simp: update_source_statistics_def rerun_rel_def split: option.splits sum.splits)
qed

lemma run_touched:
  assumes "faults w = []" "snapshot w = None"
  shows "faults (tp_db (snd (parse t (TwoPassEPGParser f w sid nm)))) = []
       \<and> snapshot (tp_db (snd (parse t (TwoPassEPGParser f w sid nm)))) = None
       \<and> touched_only sid (declared_ids (events f)) (store w)
            (store (tp_db (snd (parse t (TwoPassEPGParser f w sid nm)))))"
proof -
  let ?A = "declared_ids (events f)"
  let ?R = "\<lambda>s t. s = t \<and> touched_only sid ?A (store w) s"
  let ?p = "TwoPassEPGParser f w sid nm"
  have sid: "tp_source_id ?p = sid" and fl: "tp_file ?p = f" and db: "tp_db ?p = w"
    by (simp_all add: TwoPassEPGParser_def)
  have t0: "touched_only sid ?A (store w) (store w)" by (simp add: touched_only_def)
  have r0: "tp_rel ?R ?p ?p"
    using assms t0 db by (simp add: diagonal_tp_rel_refl)
  have ev: "\<forall>e\<in>set (events (tp_file ?p)). opens_within ?A e"
    using opens_within_declared fl by simp
  have cw: "channel_writes_sim ?R (tp_source_id ?p) ?A" unfolding sid by (rule touched_only_writes)
  have pw: "program_writes_sim ?R" by (rule touched_only_writes)
  have ss: "statistics_sim ?R (tp_source_id ?p) t t" unfolding sid by (rule touched_only_writes)
  have "tp_rel ?R (snd (parse t ?p)) (snd (parse t ?p))"
    by (rule parse_rel[OF cw ev pw ss r0])
  then show ?thesis using diagonal_tp_rel by blast
qed

lemma run_lockstep:
  assumes "faults w = []" "snapshot w = None" "faults v = []" "snapshot v = None"
      and "dom (sources (store w)) = dom (sources (store v))"
      and "channels (store w) = channels (store v)"
  shows "rerun_rel (store w) (store v)
           (store (tp_db (snd (parse t1 (TwoPassEPGParser f w sid nm)))))
           (store (tp_db (snd (parse t2 (TwoPassEPGParser f v sid nm)))))"
proof -
  let ?R = "rerun_rel (store w) (store v)"
  let ?p = "TwoPassEPGParser f w sid nm"
  let ?q = "TwoPassEPGParser f v sid nm"
  have sid: "tp_source_id ?p = sid" by (simp add: TwoPassEPGParser_def)
  have q: "?q = ?p\<lparr>tp_db := tp_db ?q\<rparr>" by (simp add: TwoPassEPGParser_def)
  have r: "?R (store w) (store v)" using assms(5,6) by (simp add: rerun_rel_def)
  have r0: "tp_rel ?R ?p ?q"
    unfolding tp_rel_def idle_sim_def using q assms(1-4) r
    by (simp add: TwoPassEPGParser_def)
  have ev: "\<forall>e\<in>set (events (tp_file ?p)). opens_within UNIV e" by (simp add: opens_within_UNIV)
  have cw: "channel_writes_sim ?R (tp_source_id ?p) UNIV" unfolding sid by (rule rerun_rel_writes)
  have pw: "program_writes_sim ?R" by (rule rerun_rel_writes)
  have ss: "statistics_sim ?R (tp_source_id ?p) t1 t2" unfolding sid by (rule rerun_rel_writes)
  have "tp_rel ?R (snd (parse t1 ?p)) (snd (parse t2 ?q))"
    by (rule parse_rel[OF cw ev pw ss r0])
  then show ?thesis by (simp add: tp_rel_def idle_sim_def)
qed

lemma with_new_source_dom:
  "dom (sources (with_new_source env url s)) = insert (md5_hexdigest env url) (dom (sources s))"
  by (auto simp: with_new_source_def insert_source_def)

lemma cascade_keeps:
  assumes "py = (case p1 of None \<Rightarrow> None
                 | Some p \<Rightarrow> (case c1 (p_channel_id p) of None \<Rightarrow> Some p
                              | Some c \<Rightarrow> if c_source_id c = sid then None else Some p))"
      and "p1 = Some p" and "c1 (p_channel_id p) = Some c0" and "c_source_id c0 \<noteq> sid"
  shows "py = Some p"
  using assms by simp

subsection \<open>A channel id shared with another source\<close>

lemma first_run_on_shared_store:
  "process_source (demo_environment (XmlStream demo_feed True)) ''guide.xml'' (idle_world shared_store)
     = (Inr True, idle_world shared_store_after)"
proof -
  have i: "faults (idle_world shared_store) = []" "snapshot (idle_world shared_store) = None"
    by (simp_all add: idle_world_def)
  show ?thesis
    unfolding process_source_idle[OF i]
    by (simp add: source_defs parser_defs handler_defs store_defs demo_defs shared_store_def
          shared_store_after_def Let_def domIff cong: prod.case_cong_weak let_weak_cong)
qed

lemma second_run_on_shared_store:
  "programs (store (snd (process_source (demo_environment (XmlStream demo_feed True)) ''guide.xml''
      (idle_world shared_store_after)))) ''c1_8_9'' = None
   \<and> programs (store (snd (process_source (demo_environment (XmlStream demo_feed True)) ''guide.xml''
      (idle_world shared_store_after)))) ''c1_1_2''
     = Some \<lparr>p_id = ''c1_1_2'', p_channel_id = ''c1'', p_title = ''News'',
              p_description = None, p_start = ''1'', p_stop = ''2'', p_category = None\<rparr>"
proof -
  have i: "faults (idle_world shared_store_after) = []" "snapshot (idle_world shared_store_after) = None"
    by (simp_all add: idle_world_def)
  show ?thesis
    unfolding process_source_idle[OF i]
    by (simp add: source_defs parser_defs handler_defs store_defs demo_defs
          shared_store_after_def Let_def domIff cong: prod.case_cong_weak let_weak_cong)
qed

text \<open>
  C5, as stated, fails when the feed declares a channel id that another source owns in
  the store.  The first run takes the channel over (insert fails, update sets the owner)
  and leaves the other source's program \<^verbatim>\<open>c1_8_9\<close> in place; the second run deletes
  the source, which now cascades to that channel and to the program, so the program
  table differs between the two runs.
\<close>

theorem reprocessing_shared_channel_changes_rows:
  "programs (store (snd (process_source (demo_environment (XmlStream demo_feed True)) ''guide.xml''
      (idle_world shared_store)))) ''c1_8_9''
     = Some \<lparr>p_id = ''c1_8_9'', p_channel_id = ''c1'', p_title = ''Earlier'',
              p_description = None, p_start = ''8'', p_stop = ''9'', p_category = None\<rparr>
   \<and> programs (store (snd (process_source (demo_environment (XmlStream demo_feed True)) ''guide.xml''
      (snd (process_source (demo_environment (XmlStream demo_feed True)) ''guide.xml''
         (idle_world shared_store)))))) ''c1_8_9'' = None"
  unfolding first_run_on_shared_store
  using second_run_on_shared_store
  by (simp add: idle_world_def shared_store_after_def)

text \<open>
  C5, amended: on a connection without faults and a store with referential integrity in
  which no channel id declared by the feed belongs to another source, processing the
  same source twice with the same file (the clocks may differ) leaves the same channel
  table and the same program table, hence the same row counts, and returns the same
  result.
\<close>

theorem reprocessing_is_idempotent:
  assumes idle: "faults w = []" "snapshot w = None"
      and ri: "referential_integrity (store w)"
      and same: "md5_hexdigest env' = md5_hexdigest env" "download_file env' = download_file env"
                "read_file env' = read_file env"
      and nfo: "\<forall>path. local_path_of env url = Some path \<longrightarrow>
                  no_foreign_owner (md5_hexdigest env url)
                    (declared_ids (events (read_file env path))) (store w)"
  shows "channels (store (snd (process_source env' url (snd (process_source env url w)))))
           = channels (store (snd (process_source env url w)))
       \<and> programs (store (snd (process_source env' url (snd (process_source env url w)))))
           = programs (store (snd (process_source env url w)))
       \<and> fst (process_source env' url (snd (process_source env url w)))
           = fst (process_source env url w)"
proof -
  let ?sid = "md5_hexdigest env url"
  let ?d = "without_source ?sid (store w)"
  have lp: "local_path_of env' url = local_path_of env url"
    using same by (simp add: local_path_of_def)
  have sid': "md5_hexdigest env' url = ?sid" using same by simp
  show ?thesis
  proof (cases "local_path_of env url")
    case None
    let ?w1 = "w\<lparr>store := ?d\<rparr>"
    have a: "process_source env url w = (Inr False, ?w1)"
      using process_source_idle[OF idle, of env url] None by simp
    have i1: "faults ?w1 = []" "snapshot ?w1 = None" using idle by simp_all
    have dd: "without_source ?sid ?d = ?d"
      by (rule without_source_absent[OF without_source_sources])
    have b: "process_source env' url ?w1 = (Inr False, ?w1\<lparr>store := ?d\<rparr>)"
      using process_source_idle[OF i1, of env' url] None lp sid' dd by simp
    show ?thesis using a b by simp
  next
    case (Some path)
    let ?f = "read_file env path"
    let ?A = "declared_ids (events ?f)"
    let ?x = "with_new_source env url ?d"
    let ?wx = "w\<lparr>store := ?x\<rparr>"
    let ?nm = "last_segment url"
    let ?w1 = "tp_db (snd (parse (datetime_now env) (TwoPassEPGParser ?f ?wx ?sid ?nm)))"
    let ?s1 = "store ?w1"
    have a: "process_source env url w = (Inr True, ?w1)"
      using process_source_idle[OF idle, of env url] Some
      by (simp add: parse_epg_file_def parse_reports_success)
    have ix: "faults ?wx = []" "snapshot ?wx = None" using idle by simp_all
    note ta = run_touched[OF ix, of "datetime_now env" ?f ?sid ?nm]
    have i1: "faults ?w1 = []" "snapshot ?w1 = None" using ta by simp_all
    have t1: "touched_only ?sid ?A ?x ?s1" using ta by simp
    have rid: "referential_integrity ?d" by (rule without_source_integrity[OF ri])
    have cx: "channels ?x = channels ?d" "programs ?x = programs ?d"
      by (simp_all add: with_new_source_tables)
    have domx: "dom (sources ?x) = insert ?sid (dom (sources ?d))"
      by (rule with_new_source_dom)
    have nox: "\<And>k c. channels ?x k = Some c \<Longrightarrow> c_source_id c \<noteq> ?sid"
      using without_source_no_rows(1)[OF ri, of ?sid] cx(1)
      by (auto simp: channels_of_def)
    have Ax: "\<And>k. k \<in> ?A \<Longrightarrow> channels ?x k = None"
    proof -
      fix k assume k: "k \<in> ?A"
      have "no_foreign_owner ?sid ?A (store w)" using nfo Some by simp
      then have "\<forall>c. channels (store w) k = Some c \<longrightarrow> c_source_id c = ?sid"
        using k by (simp add: no_foreign_owner_def)
      then show "channels ?x k = None"
        using without_source_channels[OF ri, of ?sid k] cx(1)
        by (auto split: option.splits)
    qed
    have px: "\<And>k p. programs ?x k = Some p \<Longrightarrow> \<exists>c. channels ?x (p_channel_id p) = Some c"
      using rid cx unfolding referential_integrity_def by (metis domD)
    have sid1: "?sid \<in> dom (sources ?s1)"
      using t1 domx by (simp add: touched_only_def)
    let ?y = "with_new_source env' url (without_source ?sid ?s1)"
    let ?wy = "?w1\<lparr>store := ?y\<rparr>"
    let ?w2 = "tp_db (snd (parse (datetime_now env') (TwoPassEPGParser ?f ?wy ?sid ?nm)))"
    have b: "process_source env' url ?w1 = (Inr True, ?w2)"
      using process_source_idle[OF i1, of env' url] Some lp sid' same(3)
      by (simp add: parse_epg_file_def parse_reports_success)
    have cyk: "\<And>k. channels ?y k = channels ?x k"
    proof -
      fix k
      have 1: "channels ?y k =
         (case channels ?s1 k of None \<Rightarrow> None
          | Some c \<Rightarrow> if c_source_id c = ?sid then None else Some c)"
        using cascade_channels[OF sid1, of k] by (simp add: with_new_source_tables)
      have "channels ?s1 k = channels ?x k
            \<or> (k \<in> ?A \<and> (\<exists>c. channels ?s1 k = Some c \<and> c_source_id c = ?sid))"
        using t1 by (simp add: touched_only_def)
      then show "channels ?y k = channels ?x k"
      proof
        assume e: "channels ?s1 k = channels ?x k"
        show ?thesis
        proof (cases "channels ?x k")
          case None then show ?thesis using 1 e by simp
        next
          case (Some c)
          then show ?thesis using 1 e nox[OF Some] by simp
        qed
      next
        assume "k \<in> ?A \<and> (\<exists>c. channels ?s1 k = Some c \<and> c_source_id c = ?sid)"
        then show ?thesis using 1 Ax[of k] by auto
      qed
    qed
    have cy: "channels ?x = channels ?y" using cyk by (intro ext) simp
    have domy: "dom (sources ?x) = dom (sources ?y)"
    proof -
      have "dom (sources ?y) = insert ?sid (dom (sources (without_source ?sid ?s1)))"
        using with_new_source_dom[of env' url "without_source ?sid ?s1"] sid' by simp
      also have "\<dots> = insert ?sid (dom (sources ?s1))"
        by (auto simp: without_source_sources_eq)
      also have "\<dots> = dom (sources ?x)"
        using t1 domx by (auto simp: touched_only_def)
      finally show ?thesis by simp
    qed
    have iy: "faults ?wy = []" "snapshot ?wy = None" using i1 by simp_all
    have ls: "rerun_rel ?x ?y ?s1 (store ?w2)"
      using run_lockstep[OF ix iy, of "datetime_now env" ?f ?sid ?nm "datetime_now env'"] domy cy
      by simp
    have ch: "channels (store ?w2) = channels ?s1" using ls by (simp add: rerun_rel_def)
    have prk: "\<And>k. programs (store ?w2) k = programs ?s1 k"
    proof -
      fix k
      have "programs ?s1 k = programs (store ?w2) k
            \<or> (programs ?s1 k = programs ?x k \<and> programs (store ?w2) k = programs ?y k)"
        using ls by (simp add: rerun_rel_def)
      then show "programs (store ?w2) k = programs ?s1 k"
      proof
        assume "programs ?s1 k = programs (store ?w2) k" then show ?thesis by simp
      next
        assume e: "programs ?s1 k = programs ?x k \<and> programs (store ?w2) k = programs ?y k"
        have 1: "programs ?y k =
           (case programs ?s1 k of None \<Rightarrow> None
            | Some p \<Rightarrow> (case channels ?s1 (p_channel_id p) of None \<Rightarrow> Some p
                         | Some c \<Rightarrow> if c_source_id c = ?sid then None else Some p))"
          using cascade_programs[OF sid1, of k] by (simp add: with_new_source_tables)
        show ?thesis
        proof (cases "programs ?s1 k")
          case None then show ?thesis using 1 e by simp
        next
          case (Some p)
          then have "programs ?x k = Some p" using e by simp
          then obtain c0 where c0: "channels ?x (p_channel_id p) = Some c0" using px by blast
          have notA: "p_channel_id p \<notin> ?A" using Ax[of "p_channel_id p"] c0 by auto
          have "channels ?s1 (p_channel_id p) = channels ?x (p_channel_id p)"
            using t1 notA by (auto simp: touched_only_def)
          then have c1: "channels ?s1 (p_channel_id p) = Some c0" using c0 by simp
          have ne: "c_source_id c0 \<noteq> ?sid" by (rule nox[OF c0])
          have "programs (store ?w2) k = programs ?y k" using e by blast
          also have "\<dots> = Some p" by (rule cascade_keeps[OF 1 Some c1 ne])
          also have "\<dots> = programs ?s1 k" using Some by simp
          finally show ?thesis .
        qed
      qed
    qed
    have pr: "programs (store ?w2) = programs ?s1" using prk by (intro ext) simp
    show ?thesis using a b ch pr by simp
  qed
qed

theorem reprocessing_is_idempotent_witness:
  "channels (store (snd (process_source (demo_environment (XmlStream demo_feed True)) ''guide.xml''
      (snd (process_source (demo_environment (XmlStream demo_feed True)) ''guide.xml''
         (idle_world shared_store_after))))))
     = channels (store (snd (process_source (demo_environment (XmlStream demo_feed True)) ''guide.xml''
         (idle_world shared_store_after))))
   \<and> programs (store (snd (process_source (demo_environment (XmlStream demo_feed True)) ''guide.xml''
      (snd (process_source (demo_environment (XmlStream demo_feed True)) ''guide.xml''
         (idle_world shared_store_after))))))
     = programs (store (snd (process_source (demo_environment (XmlStream demo_feed True)) ''guide.xml''
         (idle_world shared_store_after))))"
proof -
  let ?env = "demo_environment (XmlStream demo_feed True)"
  have i: "faults (idle_world shared_store_after) = []" "snapshot (idle_world shared_store_after) = None"
    by (simp_all add: idle_world_def)
  have ri: "referential_integrity (store (idle_world shared_store_after))"
    by (auto simp: referential_integrity_def idle_world_def shared_store_after_def split: if_splits)
  have nfo: "\<forall>path. local_path_of ?env ''guide.xml'' = Some path \<longrightarrow>
                  no_foreign_owner (md5_hexdigest ?env ''guide.xml'')
                    (declared_ids (events (read_file ?env path))) (store (idle_world shared_store_after))"
    by (simp add: no_foreign_owner_def demo_environment_def demo_feed_def idle_world_def
          shared_store_after_def attrs_get_def)
  show ?thesis
    using reprocessing_is_idempotent[OF i ri refl refl refl nfo] by simp
qed

end
